theory Spec2Isabelle
  imports Main "HOL-Library.Char_ord" "HOL-Library.List_Lexorder"
begin

unbundle bit_operations_syntax

section \<open>Data model\<close>

subsection \<open>YAML values (gopkg.in/yaml.v3)\<close>

text \<open>
  \<^verbatim>\<open>yaml.Kind\<close> is an unsigned 32-bit integer with the constants
  \<^verbatim>\<open>DocumentNode = 1 << iota\<close>, \<^verbatim>\<open>SequenceNode\<close>, \<^verbatim>\<open>MappingNode\<close>, \<^verbatim>\<open>ScalarNode\<close>,
  \<^verbatim>\<open>AliasNode\<close>. It is kept as a natural number, so that the zero value of a
  freshly allocated \<^verbatim>\<open>yaml.Node\<close> and any other number are values of the type too.
\<close>

type_synonym Kind = nat

definition DocumentNode :: Kind where "DocumentNode = 1"
definition SequenceNode :: Kind where "SequenceNode = 2"
definition MappingNode :: Kind where "MappingNode = 4"
definition ScalarNode :: Kind where "ScalarNode = 8"
definition AliasNode :: Kind where "AliasNode = 16"

text \<open>
  A value of type \<^verbatim>\<open>*yaml.Node\<close>: the nil pointer, or a node with the three fields
  the program reads (\<^verbatim>\<open>Kind\<close>, \<^verbatim>\<open>Value\<close>, \<^verbatim>\<open>Content\<close>). \<^verbatim>\<open>Content\<close> is a slice of
  pointers, each of which may be nil again.
\<close>

datatype yaml_node = NilNode | YNode Kind string "yaml_node list"

text \<open>A YAML error is the message that \<^verbatim>\<open>err.Error()\<close> returns.\<close>

datatype yaml_error = YamlError string

fun error_message :: "yaml_error \<Rightarrow> string" where
  "error_message (YamlError s) = s"

text \<open>
  The loosely typed result of unmarshalling into \<^verbatim>\<open>map[string]interface{}\<close>:
  scalars, sequences and nested mappings.
\<close>

datatype yaml_value =
    VScalar string
  | VSeq "yaml_value list"
  | VMap "(string \<times> yaml_value) list"

type_synonym yaml_map = "(string \<times> yaml_value) list"

subsection \<open>The session slot\<close>

type_synonym node_id = nat

text \<open>
  \<^verbatim>\<open>type data struct { Map; Items; Error; Node }\<close>. A nil map and a nil error are
  \<open>None\<close>, a nil \<^verbatim>\<open>*yaml.Node\<close> is \<open>NilNode\<close>; \<open>Node\<close> is the address of the
  block's node in the document tree.
\<close>

record data =
  Map :: "yaml_map option"
  Items :: yaml_node
  Error :: "yaml_error option"
  Node :: node_id

text \<open>
  \<^verbatim>\<open>parser.Context\<close> restricted to the one key the program uses: \<^verbatim>\<open>pc.Get(contextKey)\<close>
  is the slot, \<open>None\<close> when nothing was stored under the key.
\<close>

type_synonym parser_context = "data option"

section \<open>Result accessors\<close>

definition Get :: "parser_context \<Rightarrow> yaml_map option" where
  "Get pc = (case pc of None \<Rightarrow> None | Some d \<Rightarrow> Map d)"

definition TryGet :: "parser_context \<Rightarrow> yaml_map option \<times> yaml_error option" where
  "TryGet pc =
     (case pc of
        None \<Rightarrow> (None, None)
      | Some d \<Rightarrow>
          (case Error d of
             Some e \<Rightarrow> (None, Some e)
           | None \<Rightarrow> (Map d, None)))"

definition GetItems :: "parser_context \<Rightarrow> yaml_node" where
  "GetItems pc = (case pc of None \<Rightarrow> NilNode | Some d \<Rightarrow> Items d)"

definition TryGetItems :: "parser_context \<Rightarrow> yaml_node \<times> yaml_error option" where
  "TryGetItems pc =
     (case pc of
        None \<Rightarrow> (NilNode, None)
      | Some d \<Rightarrow>
          (case Error d of
             Some e \<Rightarrow> (NilNode, Some e)
           | None \<Rightarrow> (Items d, None)))"

section \<open>Text utilities of the host library (goldmark/util, goldmark/text)\<close>

text \<open>
  \<^verbatim>\<open>util.TrimLeftSpace\<close>, \<^verbatim>\<open>util.TrimRightSpace\<close> and \<^verbatim>\<open>util.IsBlank\<close> belong to the
  host library and are not part of this repository. The two trim functions cut off
  the bytes space, tab, line feed, vertical tab, form feed and carriage return.
  \<^verbatim>\<open>util.IsBlank\<close> tests every byte with \<^verbatim>\<open>util.IsSpace\<close>, which holds for space, tab,
  line feed and carriage return only: a vertical tab and a form feed are trimmed, but
  a line that contains one is not blank. A line is a byte string.
\<close>

definition spaces :: string where
  "spaces = [CHR '' '', CHR 0x09, CHR 0x0A, CHR 0x0B, CHR 0x0C, CHR 0x0D]"

definition IsSpace :: "char \<Rightarrow> bool" where
  "IsSpace c = (c = CHR '' '' \<or> c = CHR 0x09 \<or> c = CHR 0x0A \<or> c = CHR 0x0D)"

fun TrimLeft :: "string \<Rightarrow> string \<Rightarrow> string" where
  "TrimLeft [] b = []"
| "TrimLeft (c # cs) b = (if c \<in> set b then TrimLeft cs b else c # cs)"

definition TrimRight :: "string \<Rightarrow> string \<Rightarrow> string" where
  "TrimRight source b = rev (TrimLeft (rev source) b)"

definition TrimLeftSpace :: "string \<Rightarrow> string" where
  "TrimLeftSpace source = TrimLeft source spaces"

definition TrimRightSpace :: "string \<Rightarrow> string" where
  "TrimRightSpace source = TrimRight source spaces"

fun IsBlank :: "string \<Rightarrow> bool" where
  "IsBlank [] = True"
| "IsBlank (b # bs) = (if \<not> IsSpace b then False else IsBlank bs)"

text \<open>
  \<^verbatim>\<open>text.Segment\<close>: a slice of the source with a number of padding spaces in front.
  The segments that the reader hands out lie within the source.
\<close>

record segment =
  Start :: nat
  Stop :: nat
  Padding :: nat

definition segment_Len :: "segment \<Rightarrow> nat" where
  "segment_Len t = Stop t - Start t + Padding t"

definition segment_Value :: "segment \<Rightarrow> string \<Rightarrow> string" where
  "segment_Value t buffer =
     replicate (Padding t) CHR '' '' @ take (Stop t - Start t) (drop (Start t) buffer)"

text \<open>
  \<^verbatim>\<open>text.Reader\<close>, as far as the block parser sees it: the source, the line number
  that \<^verbatim>\<open>Position\<close> reports, the line and segment that \<^verbatim>\<open>PeekLine\<close> reports, and the
  number of bytes that \<^verbatim>\<open>Advance\<close> was asked to skip.
\<close>

record reader =
  Source :: string
  LineNumber :: nat
  PeekedLine :: string
  PeekedSegment :: segment
  Advanced :: nat

definition PeekLine :: "reader \<Rightarrow> string \<times> segment" where
  "PeekLine r = (PeekedLine r, PeekedSegment r)"

definition Position :: "reader \<Rightarrow> nat \<times> segment" where
  "Position r = (LineNumber r, PeekedSegment r)"

definition Advance :: "nat \<Rightarrow> reader \<Rightarrow> reader" where
  "Advance n r = r\<lparr>Advanced := Advanced r + n\<rparr>"

section \<open>The document tree of the host library (goldmark/ast)\<close>

text \<open>
  Nodes are objects that the program mutates through pointers, so the tree is a store
  from node addresses to nodes. A node records its kind, its parent, the sequence of
  its children, and the attributes the program sets: the lines of a block, the value
  and the code flag of a \<^verbatim>\<open>String\<close>, the alignments of a table row.
\<close>

datatype node_kind =
    KindDocument | KindTextBlock | KindString
  | KindTable | KindTableHeader | KindTableRow | KindTableCell
  | KindOther

datatype Alignment = AlignLeft | AlignRight | AlignCenter | AlignNone

record ast_node =
  kind :: node_kind
  parent :: "node_id option"
  children :: "node_id list"
  lines :: "segment list"
  Value :: string
  code :: bool
  Alignments :: "Alignment list"

record ast =
  nodes :: "node_id \<Rightarrow> ast_node"
  fresh :: node_id

definition new_node :: "node_kind \<Rightarrow> ast \<Rightarrow> node_id \<times> ast" where
  "new_node k h =
     (fresh h,
      h\<lparr>nodes := (nodes h)(fresh h :=
           \<lparr>kind = k, parent = None, children = [], lines = [],
            Value = [], code = False, Alignments = []\<rparr>),
        fresh := Suc (fresh h)\<rparr>)"

definition update_node :: "node_id \<Rightarrow> (ast_node \<Rightarrow> ast_node) \<Rightarrow> ast \<Rightarrow> ast" where
  "update_node n f h = h\<lparr>nodes := (nodes h)(n := f (nodes h n))\<rparr>"

definition Parent :: "node_id \<Rightarrow> ast \<Rightarrow> node_id option" where
  "Parent n h = parent (nodes h n)"

definition FirstChild :: "node_id \<Rightarrow> ast \<Rightarrow> node_id option" where
  "FirstChild n h = (case children (nodes h n) of [] \<Rightarrow> None | c # _ \<Rightarrow> Some c)"

text \<open>\<^verbatim>\<open>RemoveChild(self, v)\<close> does nothing unless \<open>v\<close> is a child of \<open>self\<close>.\<close>

definition RemoveChild :: "node_id \<Rightarrow> node_id \<Rightarrow> ast \<Rightarrow> ast" where
  "RemoveChild self v h =
     (if Parent v h \<noteq> Some self then h
      else update_node v (\<lambda>n. n\<lparr>parent := None\<rparr>)
             (update_node self (\<lambda>n. n\<lparr>children := remove1 v (children n)\<rparr>) h))"

definition ensureIsolated :: "node_id \<Rightarrow> ast \<Rightarrow> ast" where
  "ensureIsolated v h = (case Parent v h of None \<Rightarrow> h | Some p \<Rightarrow> RemoveChild p v h)"

definition AppendChild :: "node_id \<Rightarrow> node_id \<Rightarrow> ast \<Rightarrow> ast" where
  "AppendChild self v h =
     update_node v (\<lambda>n. n\<lparr>parent := Some self\<rparr>)
       (update_node self (\<lambda>n. n\<lparr>children := children n @ [v]\<rparr>) (ensureIsolated v h))"

fun insert_before :: "node_id \<Rightarrow> node_id \<Rightarrow> node_id list \<Rightarrow> node_id list" where
  "insert_before v1 x [] = []"
| "insert_before v1 x (c # cs) = (if c = v1 then x # c # cs else c # insert_before v1 x cs)"

definition InsertBefore :: "node_id \<Rightarrow> node_id option \<Rightarrow> node_id \<Rightarrow> ast \<Rightarrow> ast" where
  "InsertBefore self v1 insertee h =
     (case v1 of
        None \<Rightarrow> AppendChild self insertee h
      | Some v \<Rightarrow>
          (let h1 = ensureIsolated insertee h in
           if Parent v h1 \<noteq> Some self then h1
           else update_node insertee (\<lambda>n. n\<lparr>parent := Some self\<rparr>)
                  (update_node self
                     (\<lambda>n. n\<lparr>children := insert_before v insertee (children n)\<rparr>) h1)))"

definition NewTextBlock :: "ast \<Rightarrow> node_id \<times> ast" where
  "NewTextBlock h = new_node KindTextBlock h"

definition NewString :: "string \<Rightarrow> ast \<Rightarrow> node_id \<times> ast" where
  "NewString v h =
     (let (n, h1) = new_node KindString h in (n, update_node n (\<lambda>x. x\<lparr>Value := v\<rparr>) h1))"

definition SetCode :: "node_id \<Rightarrow> bool \<Rightarrow> ast \<Rightarrow> ast" where
  "SetCode n v h = update_node n (\<lambda>x. x\<lparr>code := v\<rparr>) h"

definition Lines_Append :: "node_id \<Rightarrow> segment \<Rightarrow> ast \<Rightarrow> ast" where
  "Lines_Append n t h = update_node n (\<lambda>x. x\<lparr>lines := lines x @ [t]\<rparr>) h"

section \<open>Boundary scanner and block accumulator\<close>

text \<open>
  \<^verbatim>\<open>parser.State\<close> is a bit set; the flags are \<^verbatim>\<open>1 << iota\<close> in the order
  \<^verbatim>\<open>None, Continue, Close, HasChildren, NoChildren\<close>.
\<close>

type_synonym State = nat

definition parser_Continue :: State where "parser_Continue = 2"
definition parser_Close :: State where "parser_Close = 4"
definition parser_NoChildren :: State where "parser_NoChildren = 16"

fun all_dashes :: "string \<Rightarrow> bool" where
  "all_dashes [] = True"
| "all_dashes (c # cs) = (if c \<noteq> CHR ''-'' then False else all_dashes cs)"

definition isSeparator :: "string \<Rightarrow> bool" where
  "isSeparator line = all_dashes (TrimRightSpace (TrimLeftSpace line))"

definition Trigger :: string where
  "Trigger = [CHR ''-'']"

definition Open :: "reader \<Rightarrow> ast \<Rightarrow> (node_id option \<times> State) \<times> ast" where
  "Open r h =
     (let (linenum, _) = Position r in
      if linenum \<noteq> 0 then ((None, parser_NoChildren), h)
      else
        let (line, _) = PeekLine r in
        if isSeparator line then
          (let (n, h1) = NewTextBlock h in ((Some n, parser_NoChildren), h1))
        else ((None, parser_NoChildren), h))"

definition Continue :: "node_id \<Rightarrow> reader \<Rightarrow> ast \<Rightarrow> State \<times> reader \<times> ast" where
  "Continue node r h =
     (let (line, seg) = PeekLine r in
      if isSeparator line \<and> \<not> IsBlank line then
        (parser_Close, Advance (segment_Len seg) r, h)
      else
        (parser_Continue OR parser_NoChildren, r, Lines_Append node seg h))"

text \<open>
  The deserialiser is the external \<^verbatim>\<open>yaml.Unmarshal\<close>: the program calls it twice on
  the same bytes, once with a \<^verbatim>\<open>map[string]interface{}\<close> as target and once with a
  \<^verbatim>\<open>yaml.Node\<close>. The two calls are the two fields of \<open>yaml\<close>; each returns an error
  or what its target holds afterwards. For the map target that is a map or nil: on a
  null document the deserialiser reports no error and leaves the map nil. For the node
  target it is the fields of the node.
\<close>

record yaml =
  Unmarshal_map :: "string \<Rightarrow> yaml_error + yaml_map option"
  Unmarshal_node :: "string \<Rightarrow> yaml_error + (Kind \<times> string \<times> yaml_node list)"

datatype go_panic = NilPointerDereference | IndexOutOfRange

text \<open>The bytes that \<^verbatim>\<open>Close\<close> writes to its buffer: the lines of the node, in order.\<close>

definition block_bytes :: "node_id \<Rightarrow> reader \<Rightarrow> ast \<Rightarrow> string" where
  "block_bytes node r h =
     concat (map (\<lambda>t. segment_Value t (Source r)) (lines (nodes h node)))"

definition Close ::
  "yaml \<Rightarrow> node_id \<Rightarrow> reader \<Rightarrow> parser_context \<Rightarrow> ast \<Rightarrow> go_panic + (parser_context \<times> ast)"
where
  "Close Y node r pc h =
     (let buf = block_bytes node r h;
          d = \<lparr>Map = None, Items = NilNode, Error = None, Node = node\<rparr>;
          d = (case Unmarshal_map Y buf of
                 Inl err \<Rightarrow> d\<lparr>Error := Some err\<rparr>
               | Inr m \<Rightarrow> d\<lparr>Map := m\<rparr>);
          d = (case Unmarshal_node Y buf of
                 Inl err \<Rightarrow> d\<lparr>Error := Some err\<rparr>
               | Inr (k, v, c) \<Rightarrow> d\<lparr>Items := YNode k v c\<rparr>);
          pc = Some d
      in if Error d = None then
           (case Parent node h of
              None \<Rightarrow> Inl NilPointerDereference
            | Some p \<Rightarrow> Inr (pc, RemoveChild p node h))
         else Inr (pc, h))"

definition CanInterruptParagraph :: bool where
  "CanInterruptParagraph = False"

definition CanAcceptIndentedLine :: bool where
  "CanAcceptIndentedLine = False"

section \<open>Value stringification\<close>

text \<open>
  The formatting verbs of Go's standard package \<^verbatim>\<open>fmt\<close> that the program uses, as the
  package documents them. \<^verbatim>\<open>%v\<close> prints a slice of strings as \<^verbatim>\<open>[e1 e2]\<close>; it prints
  a map from strings to strings as \<^verbatim>\<open>map[k1:v1 k2:v2]\<close> with the entries sorted by key
  (maps are printed in key-sorted order; strings compare byte by byte); and it prints
  an unsigned integer such as a \<^verbatim>\<open>yaml.Kind\<close> in decimal.
\<close>

fun join_space :: "string list \<Rightarrow> string" where
  "join_space [] = []"
| "join_space [x] = x"
| "join_space (x # y # ys) = x @ '' '' @ join_space (y # ys)"

definition Sprint_strings :: "string list \<Rightarrow> string" where
  "Sprint_strings val = ''['' @ join_space val @ '']''"

definition digit_char :: "nat \<Rightarrow> char" where
  "digit_char d = char_of (48 + d)"

fun Sprint_nat :: "nat \<Rightarrow> string" where
  "Sprint_nat n = (if n < 10 then [digit_char n] else Sprint_nat (n div 10) @ [digit_char (n mod 10)])"

declare Sprint_nat.simps [simp del]

text \<open>
  A Go \<^verbatim>\<open>map[string]string\<close> is a list of entries with one entry per key; the order
  of the list has no meaning. \<open>map_assign\<close> is the assignment \<^verbatim>\<open>val[k] = v\<close>.
\<close>

type_synonym go_map = "(string \<times> string) list"

fun map_assign :: "string \<Rightarrow> string \<Rightarrow> go_map \<Rightarrow> go_map" where
  "map_assign k v [] = [(k, v)]"
| "map_assign k v ((k', v') # m) =
     (if k' = k then (k, v) # m else (k', v') # map_assign k v m)"

definition Sprint_entry :: "string \<times> string \<Rightarrow> string" where
  "Sprint_entry e = fst e @ '':'' @ snd e"

definition Sprint_map :: "go_map \<Rightarrow> string" where
  "Sprint_map val = ''map['' @ join_space (map Sprint_entry (sort_key fst val)) @ '']''"

text \<open>
  The loop of the mapping case,
  \<^verbatim>\<open>for i := len(node.Content); i > 1; i = i - 2 { val[k] = ... }\<close>,
  over the stringified content: \<open>strs ! j\<close> is \<^verbatim>\<open>valueNodeToString(node.Content[j])\<close>.
\<close>

fun mapping_loop :: "nat \<Rightarrow> string list \<Rightarrow> go_map \<Rightarrow> go_map" where
  "mapping_loop i strs val =
     (if i > 1 then mapping_loop (i - 2) strs (map_assign (strs ! (i - 2)) (strs ! (i - 1)) val)
      else val)"

declare mapping_loop.simps [simp del]

fun valueNodeToString :: "yaml_node \<Rightarrow> string" where
  "valueNodeToString NilNode = []"
| "valueNodeToString (YNode k v content) =
     (if k = SequenceNode then Sprint_strings (map valueNodeToString content)
      else if k = MappingNode then
        (if length content mod 2 \<noteq> 0 then ''<broken mapping node>''
         else Sprint_map (mapping_loop (length content) (map valueNodeToString content) []))
      else if k = ScalarNode then v
      else ''<do not support yaml node kind '' @ [CHR 0x27] @ Sprint_nat k @ [CHR 0x27] @ ''>'')"

section \<open>Document rewriter\<close>

text \<open>
  Constructors of the table nodes (goldmark/extension/ast). \<^verbatim>\<open>NewTableHeader(row)\<close>
  moves the cells of \<open>row\<close>, in order, into a new header node.
\<close>

definition NewTable :: "ast \<Rightarrow> node_id \<times> ast" where
  "NewTable h = new_node KindTable h"

definition NewTableRow :: "Alignment list \<Rightarrow> ast \<Rightarrow> node_id \<times> ast" where
  "NewTableRow al h =
     (let (n, h1) = new_node KindTableRow h in (n, update_node n (\<lambda>x. x\<lparr>Alignments := al\<rparr>) h1))"

definition NewTableCell :: "ast \<Rightarrow> node_id \<times> ast" where
  "NewTableCell h = new_node KindTableCell h"

definition NewTableHeader :: "node_id \<Rightarrow> ast \<Rightarrow> node_id \<times> ast" where
  "NewTableHeader row h =
     (let (n, h1) = new_node KindTableHeader h
      in (n, fold (\<lambda>c. AppendChild n c) (children (nodes h1 row)) h1))"

text \<open>
  \<^verbatim>\<open>for i := 1; i == len(meta.Content)%2; i++ { alignments = append(alignments, AlignNone) }\<close>
\<close>

function alignments_loop :: "nat \<Rightarrow> nat \<Rightarrow> Alignment list \<Rightarrow> Alignment list" where
  "alignments_loop i n al =
     (if i = n mod 2 then alignments_loop (i + 1) n (al @ [AlignNone]) else al)"
  by pat_completeness auto
termination
  by (relation "measure (\<lambda>(i, n, al). 2 - i)") auto

declare alignments_loop.simps [simp del]

text \<open>
  The three statements that both cell loops repeat: a new cell that holds one new
  \<^verbatim>\<open>String\<close> node with the given text is appended to the row.
\<close>

definition append_string_cell :: "string \<Rightarrow> node_id \<Rightarrow> ast \<Rightarrow> ast" where
  "append_string_cell text row h =
     (let (cell, h1) = NewTableCell h;
          (str, h2) = NewString text h1;
          h3 = AppendChild cell str h2
      in AppendChild row cell h3)"

text \<open>
  \<^verbatim>\<open>for i := 0; i < len(meta.Content); i = i + 2\<close>: the key is \<^verbatim>\<open>Content[i]\<close>, the value
  \<^verbatim>\<open>Content[i+1]\<close> is collected; reading \<^verbatim>\<open>Content[i+1]\<close> of a last unpaired entry
  panics.
\<close>

fun header_loop ::
  "yaml_node list \<Rightarrow> node_id \<Rightarrow> yaml_node list \<Rightarrow> ast \<Rightarrow> go_panic + (yaml_node list \<times> ast)"
where
  "header_loop [] row valueNodes h = Inr (valueNodes, h)"
| "header_loop [keyNode] row valueNodes h = Inl IndexOutOfRange"
| "header_loop (keyNode # valueNode # rest) row valueNodes h =
     header_loop rest row (valueNodes @ [valueNode])
       (append_string_cell (valueNodeToString keyNode) row h)"

fun body_loop :: "yaml_node list \<Rightarrow> node_id \<Rightarrow> ast \<Rightarrow> ast" where
  "body_loop [] row h = h"
| "body_loop (item # rest) row h =
     body_loop rest row (append_string_cell (valueNodeToString item) row h)"

definition build_table :: "node_id \<Rightarrow> yaml_node list \<Rightarrow> ast \<Rightarrow> go_panic + ast" where
  "build_table node content h =
     (let (table, h) = NewTable h;
          alignments = alignments_loop 1 (length content) [];
          (row, h) = NewTableRow alignments h
      in case header_loop content row [] h of
           Inl p \<Rightarrow> Inl p
         | Inr (valueNodes, h) \<Rightarrow>
             (let (header, h) = NewTableHeader row h;
                  h = AppendChild table header h;
                  (row, h) = NewTableRow alignments h;
                  h = body_loop valueNodes row h;
                  h = AppendChild table row h
              in Inr (InsertBefore node (FirstChild node h) table h)))"

definition Transform :: "node_id \<Rightarrow> reader \<Rightarrow> parser_context \<Rightarrow> ast \<Rightarrow> go_panic + ast" where
  "Transform node r pc h =
     (case pc of
        None \<Rightarrow> Inr h
      | Some d \<Rightarrow>
          (case Error d of
             Some e \<Rightarrow>
               (let (msg, h1) = NewString (''<!-- '' @ error_message e @ '' -->'') h;
                    h2 = SetCode msg True h1
                in Inr (AppendChild (Node d) msg h2))
           | None \<Rightarrow>
               (case GetItems pc of
                  NilNode \<Rightarrow> Inr h
                | YNode k v c \<Rightarrow>
                    (case (if k = DocumentNode
                           then (case c of [] \<Rightarrow> Inl IndexOutOfRange | m # _ \<Rightarrow> Inr m)
                           else Inr (YNode k v c)) of
                       Inl p \<Rightarrow> Inl p
                     | Inr NilNode \<Rightarrow> Inl NilPointerDereference
                     | Inr (YNode k' v' c') \<Rightarrow>
                         if k' \<noteq> MappingNode then Inr h
                         else build_table node c' h))))"

section \<open>Options\<close>

record meta =
  Table :: bool

definition WithTable :: "meta \<Rightarrow> meta" where
  "WithTable m = m\<lparr>Table := True\<rparr>"

definition Meta :: meta where
  "Meta = \<lparr>Table = False\<rparr>"

definition New :: "(meta \<Rightarrow> meta) list \<Rightarrow> meta" where
  "New opts = fold (\<lambda>opt e. opt e) opts \<lparr>Table = False\<rparr>"

text \<open>
  \<^verbatim>\<open>Extend\<close> registers the block parser, and the AST transformer only when the
  \<^verbatim>\<open>Table\<close> option is set; both with priority 0.
\<close>

datatype registration = BlockParser int | ASTTransformer int

definition Extend :: "meta \<Rightarrow> registration list" where
  "Extend e = BlockParser 0 # (if Table e then [ASTTransformer 0] else [])"

text \<open>
  Modelled from the spec: the host parser, which is not part of this repository, runs
  the registered AST transformers once, after the document tree is built.
\<close>

definition run_rewriter ::
  "meta \<Rightarrow> node_id \<Rightarrow> reader \<Rightarrow> parser_context \<Rightarrow> ast \<Rightarrow> go_panic + ast" where
  "run_rewriter e node r pc h =
     (if ASTTransformer 0 \<in> set (Extend e) then Transform node r pc h else Inr h)"

section \<open>Observations used in the statements\<close>

text \<open>
  The subtree below a node of the store, read down to a given depth: kind, string
  value and code flag of each node, and the subtrees of its children in order.
\<close>

datatype tree = Tree node_kind string bool "tree list"

fun subtree :: "nat \<Rightarrow> ast \<Rightarrow> node_id \<Rightarrow> tree" where
  "subtree 0 h n = Tree (kind (nodes h n)) (Value (nodes h n)) (code (nodes h n)) []"
| "subtree (Suc d) h n =
     Tree (kind (nodes h n)) (Value (nodes h n)) (code (nodes h n))
       (map (subtree d h) (children (nodes h n)))"

text \<open>The table cell that shows a text: a cell with one plain \<^verbatim>\<open>String\<close> child.\<close>

definition text_cell :: "string \<Rightarrow> tree" where
  "text_cell s = Tree KindTableCell [] False [Tree KindString s False []]"

text \<open>
  The content of a mapping node whose entries are scalar key/value pairs, in
  declaration order.
\<close>

fun scalar_pairs :: "(string \<times> string) list \<Rightarrow> yaml_node list" where
  "scalar_pairs [] = []"
| "scalar_pairs ((k, v) # kvs) = YNode ScalarNode k [] # YNode ScalarNode v [] # scalar_pairs kvs"

text \<open>The entries of a mapping node's content, paired as (key, value), in declaration order.\<close>

fun pairs_of :: "'a list \<Rightarrow> ('a \<times> 'a) list" where
  "pairs_of (k # v # rest) = (k, v) # pairs_of rest"
| "pairs_of _ = []"

text \<open>The assignment \<^verbatim>\<open>val[k] = v\<close> of one entry \<open>(k, v)\<close>.\<close>

definition assign_entry :: "string \<times> string \<Rightarrow> go_map \<Rightarrow> go_map" where
  "assign_entry e m = map_assign (fst e) (snd e) m"

text \<open>
  The format of a mapping node as the specification words it: the stringified pairs,
  brace-delimited and space-separated, in the reverse of declaration order.
\<close>

definition spec_mapping_string :: "yaml_node list \<Rightarrow> string" where
  "spec_mapping_string content =
     ''map['' @ join_space (map Sprint_entry (rev (pairs_of (map valueNodeToString content)))) @ '']''"

section \<open>Auxiliary notions for the proofs about the tree\<close>

text \<open>
  Two nodes have the same shape when they agree on what \<open>subtree\<close> reads: kind, value,
  code flag and children. A range of addresses is closed when the children of its
  nodes lie in it again.
\<close>

definition same_shape :: "ast_node \<Rightarrow> ast_node \<Rightarrow> bool" where
  "same_shape a b \<longleftrightarrow>
     kind a = kind b \<and> Value a = Value b \<and> code a = code b \<and> children a = children b"

definition closed_range :: "ast \<Rightarrow> node_id \<Rightarrow> node_id \<Rightarrow> bool" where
  "closed_range h lo hi \<longleftrightarrow>
     (\<forall>m. lo \<le> m \<and> m < hi \<longrightarrow> (\<forall>c \<in> set (children (nodes h m)). lo \<le> c \<and> c < hi))"

text \<open>
  The invariant of the two cell loops: the cells appended to \<open>row\<close> so far are text
  cells for \<open>texts\<close>, in order; they and their strings were allocated at or after \<open>lo\<close>.
\<close>

definition cells_inv :: "ast \<Rightarrow> node_id \<Rightarrow> node_id \<Rightarrow> string list \<Rightarrow> bool" where
  "cells_inv h row lo texts \<longleftrightarrow>
     row < lo \<and> lo \<le> fresh h \<and> closed_range h lo (fresh h)
     \<and> (\<forall>c \<in> set (children (nodes h row)).
           lo \<le> c \<and> c < fresh h \<and> parent (nodes h c) = Some row)
     \<and> distinct (children (nodes h row))
     \<and> map (subtree 2 h) (children (nodes h row)) = map text_cell texts"

text \<open>Both cell loops append one text cell per text.\<close>

definition append_cells :: "string list \<Rightarrow> node_id \<Rightarrow> ast \<Rightarrow> ast" where
  "append_cells texts row h = fold (\<lambda>s. append_string_cell s row) texts h"

section \<open>Examples\<close>

definition blank_node :: "node_kind \<Rightarrow> ast_node" where
  "blank_node k =
     \<lparr>kind = k, parent = None, children = [], lines = [], Value = [], code = False,
      Alignments = []\<rparr>"

definition example_source :: string where
  "example_source = ''---\<newline>Title: X\<newline>---\<newline># H\<newline>''"

definition example_reader :: reader where
  "example_reader =
     \<lparr>Source = example_source, LineNumber = 2, PeekedLine = ''---\<newline>'',
      PeekedSegment = \<lparr>Start = 13, Stop = 17, Padding = 0\<rparr>, Advanced = 0\<rparr>"

definition example_first_reader :: reader where
  "example_first_reader =
     \<lparr>Source = example_source, LineNumber = 0, PeekedLine = ''---\<newline>'',
      PeekedSegment = \<lparr>Start = 0, Stop = 4, Padding = 0\<rparr>, Advanced = 0\<rparr>"

definition example_ast :: ast where
  "example_ast =
     \<lparr>nodes = (\<lambda>_. blank_node KindOther)
        (0 := (blank_node KindDocument)\<lparr>children := [1, 2]\<rparr>,
         1 := (blank_node KindTextBlock)
                \<lparr>parent := Some 0, lines := [\<lparr>Start = 4, Stop = 13, Padding = 0\<rparr>]\<rparr>,
         2 := (blank_node KindOther)\<lparr>parent := Some 0\<rparr>),
      fresh = 3\<rparr>"

definition yaml_ok :: yaml where
  "yaml_ok =
     \<lparr>Unmarshal_map = (\<lambda>_. Inr (Some [(''Title'', VScalar ''X'')])),
      Unmarshal_node = (\<lambda>_. Inr (DocumentNode, [], [YNode MappingNode [] (scalar_pairs [(''Title'', ''X'')])]))\<rparr>"

definition yaml_map_fails :: yaml where
  "yaml_map_fails =
     \<lparr>Unmarshal_map = (\<lambda>_. Inl (YamlError ''yaml: cannot unmarshal !!seq into map'')),
      Unmarshal_node = (\<lambda>_. Inr (DocumentNode, [], [YNode SequenceNode [] [YNode ScalarNode ''a'' []]]))\<rparr>"

definition yaml_both_fail :: yaml where
  "yaml_both_fail =
     \<lparr>Unmarshal_map = (\<lambda>_. Inl (YamlError ''yaml: line 3: did not find expected key'')),
      Unmarshal_node = (\<lambda>_. Inl (YamlError ''yaml: line 3: did not find expected key''))\<rparr>"

definition yaml_null :: yaml where
  "yaml_null =
     \<lparr>Unmarshal_map = (\<lambda>_. Inr None),
      Unmarshal_node = (\<lambda>_. Inr (DocumentNode, [], [YNode ScalarNode ''~'' []]))\<rparr>"

definition yaml_tree_fails :: yaml where
  "yaml_tree_fails =
     \<lparr>Unmarshal_map = (\<lambda>_. Inr (Some [(''Title'', VScalar ''X'')])),
      Unmarshal_node = (\<lambda>_. Inl (YamlError ''yaml: tree''))\<rparr>"

definition example_error_slot :: data where
  "example_error_slot =
     \<lparr>Map = None, Items = NilNode,
      Error = Some (YamlError ''yaml: line 3: did not find expected key''), Node = 1\<rparr>"

definition example_table_slot :: data where
  "example_table_slot =
     \<lparr>Map = Some [(''Title'', VScalar ''X''), (''Summary'', VScalar ''Y'')],
      Items = YNode DocumentNode []
                [YNode MappingNode [] (scalar_pairs [(''Title'', ''X''), (''Summary'', ''Y'')])],
      Error = None, Node = 1\<rparr>"

definition example_closed_ast :: ast where
  "example_closed_ast =
     \<lparr>nodes = (\<lambda>_. blank_node KindOther)
        (0 := (blank_node KindDocument)\<lparr>children := [2]\<rparr>,
         1 := (blank_node KindTextBlock)\<lparr>lines := [\<lparr>Start = 4, Stop = 13, Padding = 0\<rparr>]\<rparr>,
         2 := (blank_node KindOther)\<lparr>parent := Some 0\<rparr>),
      fresh = 3\<rparr>"

section \<open>Properties of the boundary scanner\<close>

lemma TrimLeft_dropWhile: "TrimLeft s b = dropWhile (\<lambda>c. c \<in> set b) s"
  by (induction s) auto

lemma all_dashes_iff: "all_dashes s \<longleftrightarrow> (\<exists>n. s = replicate n CHR ''-'')"
proof (induction s)
  case Nil
  show ?case by simp
next
  case (Cons c cs)
  show ?case
  proof
    assume "all_dashes (c # cs)"
    then obtain n where "c = CHR ''-''" "cs = replicate n CHR ''-''"
      using Cons.IH by (auto split: if_splits)
    then have "c # cs = replicate (Suc n) CHR ''-''" by simp
    then show "\<exists>n. c # cs = replicate n CHR ''-''" by blast
  next
    assume "\<exists>n. c # cs = replicate n CHR ''-''"
    then obtain n where n: "c # cs = replicate n CHR ''-''" by blast
    then obtain m where "n = Suc m" by (cases n) auto
    with n have "c = CHR ''-''" "cs = replicate m CHR ''-''" by auto
    then show "all_dashes (c # cs)" using Cons.IH by auto
  qed
qed

lemma IsBlank_iff: "IsBlank s \<longleftrightarrow> (\<forall>c \<in> set s. IsSpace c)"
  by (induction s) auto

lemma IsBlank_set: "IsBlank s \<longleftrightarrow> set s \<subseteq> {CHR '' '', CHR 0x09, CHR 0x0A, CHR 0x0D}"
  unfolding IsBlank_iff by (auto simp: IsSpace_def)

lemma set_trim_subset: "set (TrimRightSpace (TrimLeftSpace line)) \<subseteq> set line"
proof
  fix c assume "c \<in> set (TrimRightSpace (TrimLeftSpace line))"
  then have "c \<in> set (dropWhile (\<lambda>c. c \<in> set spaces)
                 (rev (dropWhile (\<lambda>c. c \<in> set spaces) line)))"
    by (simp add: TrimRightSpace_def TrimLeftSpace_def TrimRight_def TrimLeft_dropWhile)
  then have "c \<in> set (rev (dropWhile (\<lambda>c. c \<in> set spaces) line))"
    by (rule set_dropWhileD)
  then have "c \<in> set (dropWhile (\<lambda>c. c \<in> set spaces) line)" by simp
  then show "c \<in> set line" by (rule set_dropWhileD)
qed

lemma isSeparator_three_dashes: "isSeparator ''---\<newline>''"
  by (simp add: isSeparator_def TrimRightSpace_def TrimLeftSpace_def TrimRight_def spaces_def)

lemma trim_three_dashes: "TrimRightSpace (TrimLeftSpace ''---\<newline>'') = replicate 3 CHR ''-''"
  by (simp add: TrimRightSpace_def TrimLeftSpace_def TrimRight_def spaces_def numeral_3_eq_3)

lemma trim_dashes_example: "TrimRightSpace (TrimLeftSpace ''  ---  '') = replicate 3 CHR ''-''"
    by (simp add: TrimRightSpace_def TrimLeftSpace_def TrimRight_def spaces_def numeral_3_eq_3)

lemma trim_vt_lf: "TrimRightSpace (TrimLeftSpace [CHR 0x0B, CHR 0x0A]) = []"
  by (simp add: TrimRightSpace_def TrimLeftSpace_def TrimRight_def spaces_def)

text \<open>
  C4, as amended. \<open>isSeparator\<close> holds exactly when the line, after trimming leading
  and trailing whitespace, consists entirely of \<open>-\<close> characters; the trimmed line may
  be empty, so the test holds for an empty and for an all-whitespace line. The
  closing test of \<open>Continue\<close> adds \<^verbatim>\<open>!util.IsBlank(line)\<close>: it holds exactly when the
  trimmed line consists entirely of \<open>-\<close> characters and the line has a byte other than
  space, tab, line feed and carriage return. So it holds whenever the trimmed line is
  a non-empty run of \<open>-\<close> characters, and it never holds for a line of spaces, tabs,
  line feeds and carriage returns.
\<close>

theorem isSeparator_iff:
  "(isSeparator line \<longleftrightarrow> (\<exists>n. TrimRightSpace (TrimLeftSpace line) = replicate n CHR ''-''))
   \<and> (fst (Continue node r h) = parser_Close \<longleftrightarrow>
        (\<exists>n. TrimRightSpace (TrimLeftSpace (PeekedLine r)) = replicate n CHR ''-'')
        \<and> \<not> set (PeekedLine r) \<subseteq> {CHR '' '', CHR 0x09, CHR 0x0A, CHR 0x0D})
   \<and> ((\<exists>n>0. TrimRightSpace (TrimLeftSpace (PeekedLine r)) = replicate n CHR ''-'') \<longrightarrow>
        fst (Continue node r h) = parser_Close)"
proof -
  let ?sp = "{CHR '' '', CHR 0x09, CHR 0x0A, CHR 0x0D}"
  have a: "isSeparator line \<longleftrightarrow> (\<exists>n. TrimRightSpace (TrimLeftSpace line) = replicate n CHR ''-'')" for line
    by (simp add: isSeparator_def all_dashes_iff)
  have b: "parser_Continue OR parser_NoChildren \<noteq> parser_Close"
    by (simp add: parser_Continue_def parser_NoChildren_def parser_Close_def)
  have "fst (Continue node r h) = parser_Close \<longleftrightarrow> isSeparator (PeekedLine r) \<and> \<not> IsBlank (PeekedLine r)"
    using b by (simp add: Continue_def PeekLine_def)
  then have c: "fst (Continue node r h) = parser_Close \<longleftrightarrow>
        (\<exists>n. TrimRightSpace (TrimLeftSpace (PeekedLine r)) = replicate n CHR ''-'')
        \<and> \<not> set (PeekedLine r) \<subseteq> ?sp"
    by (simp only: a IsBlank_set)
  have d: "fst (Continue node r h) = parser_Close"
    if "\<exists>n>0. TrimRightSpace (TrimLeftSpace (PeekedLine r)) = replicate n CHR ''-''"
  proof -
    from that obtain n where n: "0 < n"
      "TrimRightSpace (TrimLeftSpace (PeekedLine r)) = replicate n CHR ''-''" by blast
    then have "CHR ''-'' \<in> set (TrimRightSpace (TrimLeftSpace (PeekedLine r)))" by simp
    then have "CHR ''-'' \<in> set (PeekedLine r)" using set_trim_subset by blast
    moreover have "CHR ''-'' \<notin> ?sp" by simp
    ultimately have "\<not> set (PeekedLine r) \<subseteq> ?sp" by blast
    with n(2) c show ?thesis by blast
  qed
  show ?thesis
  proof (intro conjI impI)
    show "isSeparator line \<longleftrightarrow> (\<exists>n. TrimRightSpace (TrimLeftSpace line) = replicate n CHR ''-'')"
      by (rule a)
    show "fst (Continue node r h) = parser_Close \<longleftrightarrow>
        (\<exists>n. TrimRightSpace (TrimLeftSpace (PeekedLine r)) = replicate n CHR ''-'')
        \<and> \<not> set (PeekedLine r) \<subseteq> ?sp"
      by (rule c)
    show "fst (Continue node r h) = parser_Close"
      if "\<exists>n>0. TrimRightSpace (TrimLeftSpace (PeekedLine r)) = replicate n CHR ''-''"
      using that by (rule d)
  qed
qed

theorem isSeparator_iff_witness:
  "isSeparator ''  ---  '' \<and> TrimRightSpace (TrimLeftSpace ''  ---  '') = replicate 3 CHR ''-''
   \<and> fst (Continue 1 example_reader example_ast) = parser_Close
   \<and> TrimRightSpace (TrimLeftSpace [CHR 0x0B, CHR 0x0A]) = []
   \<and> fst (Continue 1 (example_reader\<lparr>PeekedLine := [CHR 0x0B, CHR 0x0A]\<rparr>) example_ast)
        = parser_Close
   \<and> fst (Continue 1 (example_reader\<lparr>PeekedLine := ''  \<newline>''\<rparr>) example_ast) \<noteq> parser_Close"
proof -
  have e: "\<exists>n. TrimRightSpace (TrimLeftSpace ''  ---  '') = replicate n CHR ''-''"
    by (rule exI [of _ 3]) (rule trim_dashes_example)
  have 1: "isSeparator ''  ---  ''"
    by (rule iffD2 [OF isSeparator_iff [THEN conjunct1]]) (rule e)
  have "TrimRightSpace (TrimLeftSpace (PeekedLine example_reader)) = replicate 3 CHR ''-''"
    by (simp add: example_reader_def trim_three_dashes)
  then have "\<exists>n>0. TrimRightSpace (TrimLeftSpace (PeekedLine example_reader)) = replicate n CHR ''-''"
    by (intro exI [of _ 3]) simp
  then have 2: "fst (Continue 1 example_reader example_ast) = parser_Close"
    by (rule mp [OF isSeparator_iff [THEN conjunct2, THEN conjunct2], rotated])
  let ?v = "example_reader\<lparr>PeekedLine := [CHR 0x0B, CHR 0x0A]\<rparr>"
  have "TrimRightSpace (TrimLeftSpace (PeekedLine ?v)) = replicate 0 CHR ''-''"
    by (simp add: trim_vt_lf)
  then have "\<exists>n. TrimRightSpace (TrimLeftSpace (PeekedLine ?v)) = replicate n CHR ''-''"
    by (rule exI)
  moreover have "\<not> set (PeekedLine ?v) \<subseteq> {CHR '' '', CHR 0x09, CHR 0x0A, CHR 0x0D}"
    by simp
  ultimately have 3: "fst (Continue 1 ?v example_ast) = parser_Close"
    using isSeparator_iff [THEN conjunct2, THEN conjunct1, of 1 ?v example_ast] by blast
  let ?b = "example_reader\<lparr>PeekedLine := ''  \<newline>''\<rparr>"
  have "set (PeekedLine ?b) \<subseteq> {CHR '' '', CHR 0x09, CHR 0x0A, CHR 0x0D}" by simp
  then have 4: "fst (Continue 1 ?b example_ast) \<noteq> parser_Close"
    using isSeparator_iff [THEN conjunct2, THEN conjunct1, of 1 ?b example_ast] by blast
  from 1 trim_dashes_example 2 trim_vt_lf 3 4 show ?thesis by (intro conjI)
qed

text \<open>
  C4 as stated fails: the test holds for the empty line and for a line of spaces,
  whose trimmed content is empty.
\<close>

theorem isSeparator_blank_counterexample:
  "isSeparator [] \<and> isSeparator ''  '' \<and> TrimRightSpace (TrimLeftSpace ''  '') = []"
  by (simp add: isSeparator_def TrimRightSpace_def TrimLeftSpace_def TrimRight_def spaces_def)

text \<open>
  C3. A block is opened only at line 0: for any other line number \<open>Open\<close> returns no
  node, whatever the text at that position; and when it returns a node, the line
  number is 0 and the line is a delimiter line.
\<close>

theorem Open_only_at_line_0:
  "(LineNumber r \<noteq> 0 \<longrightarrow> Open r h = ((None, parser_NoChildren), h))
   \<and> (fst (fst (Open r h)) \<noteq> None \<longrightarrow> LineNumber r = 0 \<and> isSeparator (PeekedLine r))"
  by (simp add: Open_def Position_def PeekLine_def NewTextBlock_def new_node_def split: prod.splits)

theorem Open_only_at_line_0_witness:
  "Open example_reader example_ast = ((None, parser_NoChildren), example_ast)
   \<and> isSeparator (PeekedLine example_reader)
   \<and> fst (fst (Open example_first_reader example_ast)) = Some 3
   \<and> LineNumber example_first_reader = 0 \<and> isSeparator (PeekedLine example_first_reader)"
proof -
  have "LineNumber example_reader \<noteq> 0" by (simp add: example_reader_def)
  with Open_only_at_line_0 [of example_reader example_ast]
  have 1: "Open example_reader example_ast = ((None, parser_NoChildren), example_ast)" by blast
  have 2: "isSeparator (PeekedLine example_reader)"
    by (simp add: example_reader_def isSeparator_three_dashes)
  have 3: "fst (fst (Open example_first_reader example_ast)) = Some 3"
    by (simp add: Open_def Position_def PeekLine_def NewTextBlock_def new_node_def
        example_first_reader_def example_ast_def isSeparator_three_dashes)
  then have "fst (fst (Open example_first_reader example_ast)) \<noteq> None" by simp
  with Open_only_at_line_0 [of example_first_reader example_ast]
  have 4: "LineNumber example_first_reader = 0 \<and> isSeparator (PeekedLine example_first_reader)"
    by blast
  from 1 2 3 4 show ?thesis by (intro conjI) simp_all
qed


section \<open>Properties of the block accumulator and the session slot\<close>

lemma Close_slot:
  "Close Y node r pc h = Inr (pc', h') \<Longrightarrow>
   pc' = Some \<lparr>Map = (case Unmarshal_map Y (block_bytes node r h) of Inl e \<Rightarrow> None | Inr m \<Rightarrow> m),
              Items = (case Unmarshal_node Y (block_bytes node r h) of Inl e \<Rightarrow> NilNode | Inr (k, v, c) \<Rightarrow> YNode k v c),
              Error = (case Unmarshal_node Y (block_bytes node r h) of
                         Inl e \<Rightarrow> Some e
                       | Inr t \<Rightarrow> (case Unmarshal_map Y (block_bytes node r h) of Inl e \<Rightarrow> Some e | Inr m \<Rightarrow> None)),
              Node = node\<rparr>"
  by (auto simp: Close_def Let_def split: sum.splits option.splits if_splits prod.splits)

lemma Close_failure:
  "(\<exists>e. Unmarshal_map Y (block_bytes node r h) = Inl e) \<or> (\<exists>e. Unmarshal_node Y (block_bytes node r h) = Inl e) \<Longrightarrow>
   \<exists>pc'. Close Y node r pc h = Inr (pc', h)"
  by (auto simp: Close_def Let_def split: sum.splits option.splits if_splits prod.splits)

lemma Close_success:
  "Unmarshal_map Y (block_bytes node r h) = Inr m \<Longrightarrow> Unmarshal_node Y (block_bytes node r h) = Inr t \<Longrightarrow>
   Parent node h = Some p \<Longrightarrow>
   \<exists>pc'. Close Y node r pc h = Inr (pc', RemoveChild p node h)"
  by (auto simp: Close_def Let_def split: sum.splits option.splits if_splits prod.splits)

lemma block_bytes_example: "block_bytes 1 example_reader example_ast = ''Title: X\<newline>''"
  by (simp add: block_bytes_def example_reader_def example_ast_def example_source_def segment_Value_def)

lemma Close_both_fail:
  "Close yaml_both_fail 1 example_reader None example_ast
     = Inr (Some \<lparr>Map = None, Items = NilNode,
                  Error = Some (YamlError ''yaml: line 3: did not find expected key''),
                  Node = 1\<rparr>, example_ast)"
  by (simp add: Close_def yaml_both_fail_def)

lemma Close_null:
  "Close yaml_null 1 example_reader None example_ast
     = Inr (Some \<lparr>Map = None, Items = YNode DocumentNode [] [YNode ScalarNode ''~'' []],
                  Error = None, Node = 1\<rparr>, RemoveChild 0 1 example_ast)"
  by (simp add: Close_def yaml_null_def Parent_def example_ast_def)

lemma Close_ok:
  "Close yaml_ok 1 example_reader None example_ast
     = Inr (Some \<lparr>Map = Some [(''Title'', VScalar ''X'')], 
        Items = YNode DocumentNode [] [YNode MappingNode [] (scalar_pairs [(''Title'', ''X'')])],
                  Error = None, Node = 1\<rparr>, RemoveChild 0 1 example_ast)"
  by (simp add: Close_def yaml_ok_def Parent_def example_ast_def)

lemma Close_map_fails:
  "Close yaml_map_fails 1 example_reader None example_ast
     = Inr (Some \<lparr>Map = None,
                  Items = YNode DocumentNode [] [YNode SequenceNode [] [YNode ScalarNode ''a'' []]],
                  Error = Some (YamlError ''yaml: cannot unmarshal !!seq into map''), Node = 1\<rparr>,
            example_ast)"
  by (simp add: Close_def yaml_map_fails_def)

lemma RemoveChild_children:
  assumes "Parent node h = Some p"
  shows "children (nodes (RemoveChild p node h) p) = remove1 node (children (nodes h p))"
    and "Parent node (RemoveChild p node h) = None"
  using assms by (auto simp: RemoveChild_def update_node_def Parent_def)

lemma example_ast_node: "Parent 1 example_ast = Some 0" "children (nodes example_ast 0) = [1, 2]"
  by (simp_all add: Parent_def example_ast_def)

text \<open>
  C1. \<open>Get\<close> returns the parsed mapping only when it is present in the slot and no
  capture error is recorded. It returns nil, and never an error, when the session has
  no slot and when a deserialisation of the block failed. The deserialiser is taken
  with the property of yaml.v3 that decoding into a node fails only where decoding
  into the map fails too: the node decode copies the parsed node, so it fails only on
  a parse error.
\<close>

theorem Get_present_and_error_free:
  assumes "\<forall>e. Unmarshal_node Y (block_bytes node r h) = Inl e \<longrightarrow>
             (\<exists>e'. Unmarshal_map Y (block_bytes node r h) = Inl e')"
  shows "Get None = None
         \<and> (\<forall>pc' h'. Close Y node r pc h = Inr (pc', h') \<longrightarrow>
              (\<exists>d. pc' = Some d
                 \<and> (\<forall>m. Get pc' = Some m \<longrightarrow> Map d = Some m \<and> Error d = None)
                 \<and> (Error d \<noteq> None \<longleftrightarrow>
                      (\<exists>e. Unmarshal_map Y (block_bytes node r h) = Inl e)
                      \<or> (\<exists>e. Unmarshal_node Y (block_bytes node r h) = Inl e))
                 \<and> (Error d \<noteq> None \<longrightarrow> Get pc' = None)
                 \<and> (Error d = None \<longrightarrow>
                      Unmarshal_map Y (block_bytes node r h) = Inr (Get pc'))))"
proof (intro conjI allI impI)
  show "Get None = None" by (simp add: Get_def)
next
  fix pc' h' assume c: "Close Y node r pc h = Inr (pc', h')"
  let ?b = "block_bytes node r h"
  let ?d = "\<lparr>Map = (case Unmarshal_map Y ?b of Inl e \<Rightarrow> None | Inr m \<Rightarrow> m),
              Items = (case Unmarshal_node Y ?b of Inl e \<Rightarrow> NilNode | Inr (k, v, c) \<Rightarrow> YNode k v c),
              Error = (case Unmarshal_node Y ?b of
                         Inl e \<Rightarrow> Some e
                       | Inr t \<Rightarrow> (case Unmarshal_map Y ?b of Inl e \<Rightarrow> Some e | Inr m \<Rightarrow> None)),
              Node = node\<rparr>"
  from c have pc': "pc' = Some ?d" by (rule Close_slot)
  have g: "Get pc' = Map ?d" by (simp add: pc' Get_def)
  have e: "Error ?d \<noteq> None \<longleftrightarrow>
             (\<exists>e. Unmarshal_map Y ?b = Inl e) \<or> (\<exists>e. Unmarshal_node Y ?b = Inl e)"
    by (cases "Unmarshal_node Y ?b"; cases "Unmarshal_map Y ?b") auto
  have f: "Map ?d = None" if "Error ?d \<noteq> None"
  proof -
    from that e assms have "\<exists>e. Unmarshal_map Y ?b = Inl e" by blast
    then show ?thesis by auto
  qed
  have s: "Unmarshal_map Y ?b = Inr (Map ?d)" if "Error ?d = None"
    using that by (cases "Unmarshal_node Y ?b"; cases "Unmarshal_map Y ?b") auto
  show "\<exists>d. pc' = Some d
          \<and> (\<forall>m. Get pc' = Some m \<longrightarrow> Map d = Some m \<and> Error d = None)
          \<and> (Error d \<noteq> None \<longleftrightarrow>
               (\<exists>e. Unmarshal_map Y ?b = Inl e) \<or> (\<exists>e. Unmarshal_node Y ?b = Inl e))
          \<and> (Error d \<noteq> None \<longrightarrow> Get pc' = None)
          \<and> (Error d = None \<longrightarrow> Unmarshal_map Y ?b = Inr (Get pc'))"
  proof (intro exI [of _ ?d] conjI allI impI)
    show "pc' = Some ?d" by (rule pc')
    show "Map ?d = Some m" if "Get pc' = Some m" for m using that g by simp
    show "Error ?d = None" if "Get pc' = Some m" for m
    proof (rule ccontr)
      assume "Error ?d \<noteq> None"
      then have "Map ?d = None" by (rule f)
      with that g show False by simp
    qed
    show "Error ?d \<noteq> None \<longleftrightarrow>
            (\<exists>e. Unmarshal_map Y ?b = Inl e) \<or> (\<exists>e. Unmarshal_node Y ?b = Inl e)"
      by (rule e)
    show "Get pc' = None" if "Error ?d \<noteq> None" using f [OF that] g by simp
    show "Unmarshal_map Y ?b = Inr (Get pc')" if "Error ?d = None"
      using s [OF that] g by simp
  qed
qed

theorem Get_present_and_error_free_witness:
  "Get None = None
   \<and> Get (Some \<lparr>Map = Some [(''Title'', VScalar ''X'')],
                Items = YNode DocumentNode []
                          [YNode MappingNode [] (scalar_pairs [(''Title'', ''X'')])],
                Error = None, Node = 1\<rparr>) = Some [(''Title'', VScalar ''X'')]
   \<and> Get (Some \<lparr>Map = None, Items = NilNode,
                Error = Some (YamlError ''yaml: line 3: did not find expected key''),
                Node = 1\<rparr>) = None
   \<and> Get (Some \<lparr>Map = None,
                Items = YNode DocumentNode [] [YNode SequenceNode [] [YNode ScalarNode ''a'' []]],
                Error = Some (YamlError ''yaml: cannot unmarshal !!seq into map''), Node = 1\<rparr>)
       = None
   \<and> Get (Some \<lparr>Map = None, Items = YNode DocumentNode [] [YNode ScalarNode ''~'' []],
                Error = None, Node = 1\<rparr>) = None"
proof -
  have a: "\<forall>e. Unmarshal_node Y (block_bytes 1 example_reader example_ast) = Inl e \<longrightarrow>
             (\<exists>e'. Unmarshal_map Y (block_bytes 1 example_reader example_ast) = Inl e')"
    if "Y = yaml_ok \<or> Y = yaml_both_fail \<or> Y = yaml_map_fails \<or> Y = yaml_null" for Y
    using that by (auto simp: yaml_ok_def yaml_both_fail_def yaml_map_fails_def yaml_null_def)
  have ok: "\<forall>e. Unmarshal_node yaml_ok (block_bytes 1 example_reader example_ast) = Inl e \<longrightarrow>
             (\<exists>e'. Unmarshal_map yaml_ok (block_bytes 1 example_reader example_ast) = Inl e')"
    by (rule a) simp
  have bf: "\<forall>e. Unmarshal_node yaml_both_fail (block_bytes 1 example_reader example_ast) = Inl e \<longrightarrow>
             (\<exists>e'. Unmarshal_map yaml_both_fail (block_bytes 1 example_reader example_ast) = Inl e')"
    by (rule a) simp
  have mf: "\<forall>e. Unmarshal_node yaml_map_fails (block_bytes 1 example_reader example_ast) = Inl e \<longrightarrow>
             (\<exists>e'. Unmarshal_map yaml_map_fails (block_bytes 1 example_reader example_ast) = Inl e')"
    by (rule a) simp
  have nu: "\<forall>e. Unmarshal_node yaml_null (block_bytes 1 example_reader example_ast) = Inl e \<longrightarrow>
             (\<exists>e'. Unmarshal_map yaml_null (block_bytes 1 example_reader example_ast) = Inl e')"
    by (rule a) simp
  show ?thesis
    using Get_present_and_error_free [OF ok, of None] Close_ok
      Get_present_and_error_free [OF bf, of None] Close_both_fail
      Get_present_and_error_free [OF mf, of None] Close_map_fails
      Get_present_and_error_free [OF nu, of None] Close_null
    by (simp add: yaml_ok_def yaml_both_fail_def yaml_map_fails_def yaml_null_def)
qed

text \<open>
  C9. The bytes of the block are deserialised twice. If either deserialisation fails,
  the slot's error field is set, the tree is left as it was, and both error-aware
  accessors return (nil, the error), also when the other deserialisation succeeded
  and its result is stored in the slot.
\<close>

theorem Close_either_failure:
  assumes "(\<exists>e. Unmarshal_map Y (block_bytes node r h) = Inl e)
           \<or> (\<exists>e. Unmarshal_node Y (block_bytes node r h) = Inl e)"
  shows "\<exists>d err. Close Y node r pc h = Inr (Some d, h)
           \<and> Error d = Some err
           \<and> TryGet (Some d) = (None, Some err)
           \<and> TryGetItems (Some d) = (NilNode, Some err)
           \<and> (\<forall>m. Unmarshal_map Y (block_bytes node r h) = Inr m \<longrightarrow> Map d = m)
           \<and> (\<forall>k v c. Unmarshal_node Y (block_bytes node r h) = Inr (k, v, c) \<longrightarrow>
                  Items d = YNode k v c)"
proof -
  from assms obtain pc' where c: "Close Y node r pc h = Inr (pc', h)"
    using Close_failure by blast
  let ?d = "\<lparr>Map = (case Unmarshal_map Y (block_bytes node r h) of Inl e \<Rightarrow> None | Inr m \<Rightarrow> m),
              Items = (case Unmarshal_node Y (block_bytes node r h) of Inl e \<Rightarrow> NilNode | Inr (k, v, c) \<Rightarrow> YNode k v c),
              Error = (case Unmarshal_node Y (block_bytes node r h) of
                         Inl e \<Rightarrow> Some e
                       | Inr t \<Rightarrow> (case Unmarshal_map Y (block_bytes node r h) of Inl e \<Rightarrow> Some e | Inr m \<Rightarrow> None)),
              Node = node\<rparr>"
  from c have pc': "pc' = Some ?d" by (rule Close_slot)
  from assms have "\<exists>err. Error ?d = Some err"
    by (cases "Unmarshal_node Y (block_bytes node r h)";
        cases "Unmarshal_map Y (block_bytes node r h)") auto
  then obtain err where e: "Error ?d = Some err" ..
  have "TryGet (Some ?d) = (None, Some err)" "TryGetItems (Some ?d) = (NilNode, Some err)"
    using e by (simp_all add: TryGet_def TryGetItems_def)
  moreover have "\<forall>m. Unmarshal_map Y (block_bytes node r h) = Inr m \<longrightarrow> Map ?d = m"
    by simp
  moreover have "\<forall>k v c. Unmarshal_node Y (block_bytes node r h) = Inr (k, v, c) \<longrightarrow> Items ?d = YNode k v c"
    by simp
  ultimately show ?thesis using c pc' e by blast
qed

theorem Close_either_failure_witness:
  "(\<exists>d err. Close yaml_map_fails 1 example_reader None example_ast = Inr (Some d, example_ast)
     \<and> Error d = Some err
     \<and> TryGet (Some d) = (None, Some err)
     \<and> TryGetItems (Some d) = (NilNode, Some err)
     \<and> Items d = YNode DocumentNode [] [YNode SequenceNode [] [YNode ScalarNode ''a'' []]])
   \<and> (\<exists>d err. Close yaml_tree_fails 1 example_reader None example_ast = Inr (Some d, example_ast)
     \<and> Error d = Some err
     \<and> TryGet (Some d) = (None, Some err)
     \<and> TryGetItems (Some d) = (NilNode, Some err)
     \<and> Map d = Some [(''Title'', VScalar ''X'')])
   \<and> (\<exists>d err. Close yaml_both_fail 1 example_reader None example_ast = Inr (Some d, example_ast)
     \<and> Error d = Some err
     \<and> TryGet (Some d) = (None, Some err)
     \<and> TryGetItems (Some d) = (NilNode, Some err))"
  using Close_either_failure [of yaml_map_fails 1 example_reader example_ast None]
    Close_either_failure [of yaml_tree_fails 1 example_reader example_ast None]
    Close_either_failure [of yaml_both_fail 1 example_reader example_ast None]
  by (simp add: yaml_map_fails_def yaml_tree_fails_def yaml_both_fail_def)

text \<open>
  C5. At block close the block's node is removed from the children of its parent if
  and only if both deserialisations succeed, that is, if and only if no error is
  recorded; on failure the tree is unchanged, so the node stays in place.
\<close>

theorem Close_removes_iff_no_error:
  assumes "Parent node h = Some p"
    and "node \<in> set (children (nodes h p))"
    and "distinct (children (nodes h p))"
  shows "\<exists>d h'. Close Y node r pc h = Inr (Some d, h')
           \<and> (node \<notin> set (children (nodes h' p)) \<longleftrightarrow> Error d = None)
           \<and> (Error d = None \<longleftrightarrow>
                (\<exists>m. Unmarshal_map Y (block_bytes node r h) = Inr m)
                \<and> (\<exists>t. Unmarshal_node Y (block_bytes node r h) = Inr t))
           \<and> (Error d = None \<longrightarrow>
                children (nodes h' p) = remove1 node (children (nodes h p))
                \<and> Parent node h' = None)
           \<and> (Error d \<noteq> None \<longrightarrow> h' = h)"
proof (cases "(\<exists>m. Unmarshal_map Y (block_bytes node r h) = Inr m)
                \<and> (\<exists>t. Unmarshal_node Y (block_bytes node r h) = Inr t)")
  case True
  then obtain m t where mt: "Unmarshal_map Y (block_bytes node r h) = Inr m"
      "Unmarshal_node Y (block_bytes node r h) = Inr t" by blast
  then obtain pc' where c: "Close Y node r pc h = Inr (pc', RemoveChild p node h)"
    using Close_success assms(1) by blast
  from Close_slot [OF c] obtain d where d: "pc' = Some d" and e: "Error d = None"
    using mt by simp
  have ch: "children (nodes (RemoveChild p node h) p) = remove1 node (children (nodes h p))"
    and pa: "Parent node (RemoveChild p node h) = None"
    using RemoveChild_children [OF assms(1)] by simp_all
  have gone: "node \<notin> set (children (nodes (RemoveChild p node h) p))"
    using assms(3) by (simp add: ch)
  show ?thesis
  proof (intro exI conjI)
    show "Close Y node r pc h = Inr (Some d, RemoveChild p node h)" using c d by simp
    show "(node \<notin> set (children (nodes (RemoveChild p node h) p))) \<longleftrightarrow> Error d = None"
      using e gone by simp
    show "Error d = None \<longleftrightarrow>
        (\<exists>m. Unmarshal_map Y (block_bytes node r h) = Inr m)
         \<and> (\<exists>t. Unmarshal_node Y (block_bytes node r h) = Inr t)"
      using e True by blast
    show "Error d = None \<longrightarrow>
        children (nodes (RemoveChild p node h) p) = remove1 node (children (nodes h p))
        \<and> Parent node (RemoveChild p node h) = None"
      using ch pa by simp
    show "Error d \<noteq> None \<longrightarrow> RemoveChild p node h = h" using e by simp
  qed
next
  case False
  then have f: "(\<exists>e. Unmarshal_map Y (block_bytes node r h) = Inl e)
           \<or> (\<exists>e. Unmarshal_node Y (block_bytes node r h) = Inl e)"
    by (metis sum.exhaust)
  then obtain pc' where c: "Close Y node r pc h = Inr (pc', h)"
    using Close_failure by blast
  from Close_slot [OF c] obtain d where d: "pc' = Some d" by simp
  from f have e: "Error d \<noteq> None"
    using Close_slot [OF c] d by (auto split: sum.splits)
  show ?thesis
  proof (intro exI conjI)
    show "Close Y node r pc h = Inr (Some d, h)" using c d by simp
    show "(node \<notin> set (children (nodes h p))) \<longleftrightarrow> Error d = None"
      using e assms(2) by simp
    show "Error d = None \<longleftrightarrow>
        (\<exists>m. Unmarshal_map Y (block_bytes node r h) = Inr m)
         \<and> (\<exists>t. Unmarshal_node Y (block_bytes node r h) = Inr t)"
      using e False by blast
    show "Error d = None \<longrightarrow>
        children (nodes h p) = remove1 node (children (nodes h p)) \<and> Parent node h = None"
      using e by blast
    show "Error d \<noteq> None \<longrightarrow> h = h" by simp
  qed
qed

theorem Close_removes_iff_no_error_witness:
  "(\<exists>d h'. Close yaml_ok 1 example_reader None example_ast = Inr (Some d, h')
      \<and> Error d = None \<and> 1 \<notin> set (children (nodes h' 0)) \<and> children (nodes h' 0) = [2])
   \<and> (\<exists>d. Close yaml_map_fails 1 example_reader None example_ast = Inr (Some d, example_ast)
      \<and> Error d \<noteq> None \<and> 1 \<in> set (children (nodes example_ast 0)))"
proof -
  have a: "Parent 1 example_ast = Some 0" "1 \<in> set (children (nodes example_ast 0))"
    "distinct (children (nodes example_ast 0))"
    by (simp_all add: Parent_def example_ast_def)
  have ok: "(\<exists>m. Unmarshal_map yaml_ok (block_bytes 1 example_reader example_ast) = Inr m)
      \<and> (\<exists>t. Unmarshal_node yaml_ok (block_bytes 1 example_reader example_ast) = Inr t)"
    by (simp add: yaml_ok_def)
  from Close_removes_iff_no_error [OF a, of yaml_ok example_reader None]
  obtain d h' where c: "Close yaml_ok 1 example_reader None example_ast = Inr (Some d, h')"
    and g: "1 \<notin> set (children (nodes h' 0)) \<longleftrightarrow> Error d = None"
    and i: "Error d = None \<longleftrightarrow>
                (\<exists>m. Unmarshal_map yaml_ok (block_bytes 1 example_reader example_ast) = Inr m)
                \<and> (\<exists>t. Unmarshal_node yaml_ok (block_bytes 1 example_reader example_ast) = Inr t)"
    and r: "Error d = None \<longrightarrow>
                children (nodes h' 0) = remove1 1 (children (nodes example_ast 0))
                \<and> Parent 1 h' = None"
    by (elim exE conjE)
  from i ok have e: "Error d = None" by (rule iffD2)
  with g have n: "1 \<notin> set (children (nodes h' 0))" by simp
  from r e have "children (nodes h' 0) = remove1 1 (children (nodes example_ast 0))" by blast
  then have "children (nodes h' 0) = [2]" by (simp add: example_ast_node)
  with c e n have 1: "\<exists>d h'. Close yaml_ok 1 example_reader None example_ast = Inr (Some d, h')
      \<and> Error d = None \<and> 1 \<notin> set (children (nodes h' 0)) \<and> children (nodes h' 0) = [2]"
    by blast
  have no: "\<not> ((\<exists>m. Unmarshal_map yaml_map_fails (block_bytes 1 example_reader example_ast) = Inr m)
      \<and> (\<exists>t. Unmarshal_node yaml_map_fails (block_bytes 1 example_reader example_ast) = Inr t))"
    by (simp add: yaml_map_fails_def)
  from Close_removes_iff_no_error [OF a, of yaml_map_fails example_reader None]
  obtain d2 h2 where c2: "Close yaml_map_fails 1 example_reader None example_ast = Inr (Some d2, h2)"
    and i2: "Error d2 = None \<longleftrightarrow>
                (\<exists>m. Unmarshal_map yaml_map_fails (block_bytes 1 example_reader example_ast) = Inr m)
                \<and> (\<exists>t. Unmarshal_node yaml_map_fails (block_bytes 1 example_reader example_ast) = Inr t)"
    and r2: "Error d2 \<noteq> None \<longrightarrow> h2 = example_ast"
    by (elim exE conjE)
  from i2 no have e2: "Error d2 \<noteq> None" by simp
  with r2 have "h2 = example_ast" by simp
  with c2 e2 a(2) have 2: "\<exists>d. Close yaml_map_fails 1 example_reader None example_ast
        = Inr (Some d, example_ast)
      \<and> Error d \<noteq> None \<and> 1 \<in> set (children (nodes example_ast 0))"
    by blast
  from 1 2 show ?thesis by (rule conjI)
qed

section \<open>Properties of value stringification\<close>

lemma Sprint_nat_16: "Sprint_nat 16 = ''16''"
  by code_simp

text \<open>
  C10. For the nil node the result is the empty string. The function is defined on
  every node, as a total recursive function: a scalar gives its value, a sequence the
  bracketed list of its stringified elements, a mapping with an odd number of entries
  the broken-mapping placeholder (with an even number, the printed map), and every
  kind other than sequence, mapping and scalar gives the placeholder that names the
  kind.
\<close>

theorem valueNodeToString_total:
  "valueNodeToString NilNode = []
   \<and> valueNodeToString (YNode ScalarNode v c) = v
   \<and> valueNodeToString (YNode SequenceNode v c) = Sprint_strings (map valueNodeToString c)
   \<and> (odd (length c) \<longrightarrow> valueNodeToString (YNode MappingNode v c) = ''<broken mapping node>'')
   \<and> (k \<noteq> SequenceNode \<and> k \<noteq> MappingNode \<and> k \<noteq> ScalarNode \<longrightarrow>
        valueNodeToString (YNode k v c)
          = ''<do not support yaml node kind '' @ [CHR 0x27] @ Sprint_nat k @ [CHR 0x27] @ ''>'')"
  by (simp add: ScalarNode_def SequenceNode_def MappingNode_def odd_iff_mod_2_eq_one)

theorem valueNodeToString_total_witness:
  "valueNodeToString NilNode = []
   \<and> valueNodeToString (YNode ScalarNode ''x'' [YNode ScalarNode ''y'' []]) = ''x''
   \<and> valueNodeToString (YNode SequenceNode ''x'' [YNode ScalarNode ''y'' []]) = ''[y]''
   \<and> valueNodeToString (YNode MappingNode ''x'' [YNode ScalarNode ''y'' []])
        = ''<broken mapping node>''
   \<and> valueNodeToString (YNode AliasNode ''x'' [YNode ScalarNode ''y'' []])
        = ''<do not support yaml node kind '' @ [CHR 0x27] @ ''16'' @ [CHR 0x27] @ ''>''"
  using valueNodeToString_total [of "''x''" "[YNode ScalarNode ''y'' []]" AliasNode]
  by (simp add: AliasNode_def ScalarNode_def SequenceNode_def MappingNode_def Sprint_nat_16
      Sprint_strings_def)


lemma map_of_map_assign: "map_of (map_assign k v m) = (map_of m)(k \<mapsto> v)"
  by (induction m) (auto simp: fun_eq_iff)

lemma keys_map_assign: "fst ` set (map_assign k v m) = insert k (fst ` set m)"
  by (induction m) force+

lemma distinct_map_assign:
  "distinct (map fst m) \<Longrightarrow> distinct (map fst (map_assign k v m))"
proof (induction m)
  case Nil
  show ?case by simp
next
  case (Cons a m)
  obtain k' v' where a: "a = (k', v')" by (cases a)
  show ?case using Cons by (auto simp: a keys_map_assign)
qed

lemma length_pairs_of: "length (pairs_of xs) = length xs div 2"
  by (induction xs rule: pairs_of.induct) auto

lemma nth_pairs_of:
  "j < length xs div 2 \<Longrightarrow> pairs_of xs ! j = (xs ! (2 * j), xs ! (2 * j + 1))"
proof (induction xs arbitrary: j rule: pairs_of.induct)
  case (1 k v rest)
  then show ?case by (cases j) auto
qed auto

lemma pairs_of_map: "pairs_of (map f xs) = map (\<lambda>(a, b). (f a, f b)) (pairs_of xs)"
  by (induction xs rule: pairs_of.induct) auto

lemma mapping_loop_fold:
  "n \<le> length strs div 2 \<Longrightarrow>
   mapping_loop (2 * n) strs val = fold assign_entry (rev (take n (pairs_of strs))) val"
proof (induction n arbitrary: val)
  case 0
  show ?case by (simp add: mapping_loop.simps)
next
  case (Suc n)
  then have n: "n < length strs div 2" by simp
  have "mapping_loop (2 * Suc n) strs val
          = mapping_loop (2 * n) strs (map_assign (strs ! (2 * n)) (strs ! (2 * n + 1)) val)"
    by (subst mapping_loop.simps) simp
  also have "\<dots> = fold assign_entry (rev (take n (pairs_of strs)))
                      (assign_entry (pairs_of strs ! n) val)"
    using n by (simp add: Suc.IH nth_pairs_of assign_entry_def [of "(strs ! (2 * n), strs ! Suc (2 * n))"])
  also have "\<dots> = fold assign_entry (rev (take (Suc n) (pairs_of strs))) val"
    using n by (simp add: take_Suc_conv_app_nth length_pairs_of)
  finally show ?case .
qed

lemma map_of_fold_assign:
  "map_of (fold assign_entry (rev ps) m) = map_of m ++ map_of ps"
proof (induction ps)
  case Nil
  show ?case by simp
next
  case (Cons p ps)
  obtain k v where p: "p = (k, v)" by (cases p)
  have "map_of (fold assign_entry (rev (p # ps)) m)
          = (map_of (fold assign_entry (rev ps) m))(k \<mapsto> v)"
    by (simp add: p assign_entry_def [of "(k, v)"] map_of_map_assign)
  also have "\<dots> = (map_of m ++ map_of ps)(k \<mapsto> v)"
    by (simp only: Cons)
  also have "\<dots> = map_of m ++ map_of (p # ps)"
    by (simp add: p)
  finally show ?case .
qed

lemma distinct_fold_assign:
  "distinct (map fst m) \<Longrightarrow> distinct (map fst (fold assign_entry ps m))"
proof (induction ps arbitrary: m)
  case Nil
  then show ?case by simp
next
  case (Cons p ps)
  have "distinct (map fst (assign_entry p m))"
    unfolding assign_entry_def using Cons.prems by (rule distinct_map_assign)
  then show ?case using Cons.IH by simp
qed

lemma sort_key_entries:
  assumes "distinct (map fst m)"
  shows "sorted (map fst (sort_key fst m))"
    and "distinct (map fst (sort_key fst m))"
    and "map_of (sort_key fst m) = map_of m"
proof -
  show "sorted (map fst (sort_key fst m))" by (rule sorted_sort_key)
  show d: "distinct (map fst (sort_key fst m))"
    using assms by (simp add: distinct_map)
  show "map_of (sort_key fst m) = map_of m"
    using d assms by (simp add: map_of_inject_set)
qed

text \<open>
  C2, as amended. For a mapping node with an even number of content entries the
  result is \<^verbatim>\<open>map[\<close>, the entries \<^verbatim>\<open>key:value\<close> of the recursively stringified pairs
  separated by spaces, and \<^verbatim>\<open>]\<close>. The entries stand in ascending order of their keys,
  whatever the declaration order, each key once; a key that is declared more than once
  has the value of its first declaration.
\<close>

theorem mapping_string_sorted:
  assumes "even (length content)"
  shows "\<exists>ps. valueNodeToString (YNode MappingNode v content)
                 = ''map['' @ join_space (map Sprint_entry ps) @ '']''
              \<and> sorted (map fst ps) \<and> distinct (map fst ps)
              \<and> map_of ps = map_of (pairs_of (map valueNodeToString content))"
proof -
  let ?strs = "map valueNodeToString content"
  let ?val = "mapping_loop (length content) ?strs []"
  from assms obtain n where n: "length content = 2 * n" by (auto elim: evenE)
  then have "?val = fold assign_entry (rev (take n (pairs_of ?strs))) []"
    using mapping_loop_fold [of n ?strs "[]"] by simp
  then have val: "?val = fold assign_entry (rev (pairs_of ?strs)) []"
    using n by (simp add: length_pairs_of)
  have d: "distinct (map fst ?val)"
    unfolding val by (rule distinct_fold_assign) simp
  have m: "map_of ?val = map_of (pairs_of ?strs)"
    unfolding val by (simp add: map_of_fold_assign)
  have "valueNodeToString (YNode MappingNode v content)
          = ''map['' @ join_space (map Sprint_entry (sort_key fst ?val)) @ '']''"
    using assms by (simp add: MappingNode_def SequenceNode_def Sprint_map_def even_iff_mod_2_eq_zero)
  with sort_key_entries [OF d] m show ?thesis by metis
qed

theorem mapping_string_sorted_witness:
  "\<exists>ps. valueNodeToString (YNode MappingNode [] (scalar_pairs [(''b'', ''1''), (''a'', ''2'')]))
            = ''map['' @ join_space (map Sprint_entry ps) @ '']''
         \<and> sorted (map fst ps) \<and> distinct (map fst ps)
         \<and> map_of ps = map_of [(''b'', ''1''), (''a'', ''2'')]"
proof -
  have e: "even (length (scalar_pairs [(''b'', ''1''), (''a'', ''2'')]))" by simp
  have p: "pairs_of (map valueNodeToString (scalar_pairs [(''b'', ''1''), (''a'', ''2'')]))
             = [(''b'', ''1''), (''a'', ''2'')]"
    by (simp add: ScalarNode_def SequenceNode_def MappingNode_def)
  show ?thesis using mapping_string_sorted [OF e, of "[]"] unfolding p .
qed

text \<open>
  C2 as stated fails: two pairs declared as \<open>a\<close>, then \<open>b\<close> are printed in that
  order, not in the reverse order that the specification words.
\<close>

theorem mapping_string_not_reversed_counterexample:
  "valueNodeToString (YNode MappingNode [] (scalar_pairs [(''a'', ''1''), (''b'', ''2'')]))
     = ''map[a:1 b:2]''
   \<and> spec_mapping_string (scalar_pairs [(''a'', ''1''), (''b'', ''2'')]) = ''map[b:2 a:1]''"
  by code_simp

section \<open>Properties of the document rewriter\<close>

lemma ensureIsolated_no_parent: "Parent v h = None \<Longrightarrow> ensureIsolated v h = h"
  by (simp add: ensureIsolated_def)

lemma AppendChild_isolated:
  "Parent v h = None \<Longrightarrow>
   AppendChild self v h =
     update_node v (\<lambda>n. n\<lparr>parent := Some self\<rparr>)
       (update_node self (\<lambda>n. n\<lparr>children := children n @ [v]\<rparr>) h)"
  by (simp add: AppendChild_def ensureIsolated_no_parent)

text \<open>
  C7. With a capture error in the slot, the rewriter allocates exactly one node, a
  \<^verbatim>\<open>String\<close> node with the code flag set whose value is the error message between
  \<^verbatim>\<open><!--\<close> and \<^verbatim>\<open>-->\<close>, and appends it as the last child of the anchor node. Nothing
  else changes: no table node is built and no node is inserted anywhere else.
\<close>

theorem Transform_error_annotation:
  assumes "pc = Some d" and "Error d = Some e" and "Node d < fresh h"
  shows "\<exists>h'. Transform node r pc h = Inr h'
           \<and> fresh h' = Suc (fresh h)
           \<and> children (nodes h' (Node d)) = children (nodes h (Node d)) @ [fresh h]
           \<and> subtree 1 h' (fresh h)
                = Tree KindString (''<!-- '' @ error_message e @ '' -->'') True []
           \<and> parent (nodes h' (fresh h)) = Some (Node d)
           \<and> (\<forall>n. n \<noteq> fresh h \<longrightarrow>
                  nodes h' n = (nodes h n)\<lparr>children :=
                     (if n = Node d then children (nodes h n) @ [fresh h] else children (nodes h n))\<rparr>)"
  using assms
  by (simp add: Transform_def NewString_def new_node_def SetCode_def update_node_def
        AppendChild_def ensureIsolated_def Parent_def Let_def)

theorem Transform_error_annotation_witness:
  "\<exists>h'. Transform 0 example_reader (Some example_error_slot) example_ast = Inr h'
     \<and> fresh h' = 4
     \<and> children (nodes h' 1) = [3]
     \<and> subtree 1 h' 3
          = Tree KindString ''<!-- yaml: line 3: did not find expected key -->'' True []
     \<and> children (nodes h' 0) = [1, 2]"
proof -
  have a: "Error example_error_slot = Some (YamlError ''yaml: line 3: did not find expected key'')"
    "Node example_error_slot < fresh example_ast"
    by (simp_all add: example_error_slot_def example_ast_def)
  from Transform_error_annotation [OF refl a, of 0 example_reader]
  obtain h' where t: "Transform 0 example_reader (Some example_error_slot) example_ast = Inr h'"
    and f: "fresh h' = Suc (fresh example_ast)"
    and c: "children (nodes h' (Node example_error_slot))
              = children (nodes example_ast (Node example_error_slot)) @ [fresh example_ast]"
    and s: "subtree 1 h' (fresh example_ast)
              = Tree KindString
                  (''<!-- '' @ error_message (YamlError ''yaml: line 3: did not find expected key'') @ '' -->'')
                  True []"
    and fr: "\<forall>n. n \<noteq> fresh example_ast \<longrightarrow>
                  nodes h' n = (nodes example_ast n)\<lparr>children :=
                     (if n = Node example_error_slot
                      then children (nodes example_ast n) @ [fresh example_ast]
                      else children (nodes example_ast n))\<rparr>"
    by blast
  have 1: "fresh h' = 4" using f by (simp add: example_ast_def)
  have 2: "children (nodes h' 1) = [3]"
    using c by (simp add: example_error_slot_def example_ast_def blank_node_def)
  have 3: "subtree 1 h' 3
          = Tree KindString ''<!-- yaml: line 3: did not find expected key -->'' True []"
    using s by (simp add: example_ast_def)
  have "nodes h' 0 = (nodes example_ast 0)\<lparr>children := children (nodes example_ast 0)\<rparr>"
    using fr [THEN spec, of 0] by (simp add: example_ast_def example_error_slot_def)
  then have 4: "children (nodes h' 0) = [1, 2]" by (simp add: example_ast_def blank_node_def)
  from t 1 2 3 4 show ?thesis by blast
qed

lemma nodes_update_node [simp]:
  "nodes (update_node n f h) m = (if m = n then f (nodes h n) else nodes h m)"
  by (simp add: update_node_def)

lemma fresh_update_node [simp]: "fresh (update_node n f h) = fresh h"
  by (simp add: update_node_def)

lemma new_node_simps [simp]:
  "fst (new_node k h) = fresh h"
  "fresh (snd (new_node k h)) = Suc (fresh h)"
  "nodes (snd (new_node k h)) m = (if m = fresh h then blank_node k else nodes h m)"
  by (simp_all add: new_node_def blank_node_def)

lemma same_shape_refl [simp]: "same_shape a a"
  by (simp add: same_shape_def)

lemma same_shapeD:
  assumes "same_shape a b"
  shows "kind a = kind b" "Value a = Value b" "code a = code b" "children a = children b"
  using assms by (simp_all add: same_shape_def)

lemma closed_rangeD:
  assumes "closed_range h lo hi" and "lo \<le> m" and "m < hi" and "c \<in> set (children (nodes h m))"
  shows "lo \<le> c" and "c < hi"
proof -
  from assms(1) have "lo \<le> m \<and> m < hi \<longrightarrow> (\<forall>c \<in> set (children (nodes h m)). lo \<le> c \<and> c < hi)"
    unfolding closed_range_def by (rule spec)
  with assms(2,3,4) show "lo \<le> c" and "c < hi" by blast+
qed

lemma subtree_frame:
  assumes fr: "\<And>m. lo \<le> m \<Longrightarrow> m < hi \<Longrightarrow> same_shape (nodes h' m) (nodes h m)"
    and cl: "closed_range h lo hi"
    and "lo \<le> n" and "n < hi"
  shows "subtree d h' n = subtree d h n"
  using assms(3,4)
proof (induction d arbitrary: n)
  case 0
  have "same_shape (nodes h' n) (nodes h n)" using 0 by (rule fr)
  then show ?case by (simp add: same_shape_def)
next
  case (Suc d)
  have s: "same_shape (nodes h' n) (nodes h n)" using Suc.prems by (rule fr)
  have "\<forall>c \<in> set (children (nodes h n)). subtree d h' c = subtree d h c"
  proof
    fix c assume "c \<in> set (children (nodes h n))"
    with cl Suc.prems have "lo \<le> c" "c < hi" by (blast dest: closed_rangeD)+
    then show "subtree d h' c = subtree d h c" by (rule Suc.IH)
  qed
  then have "map (subtree d h') (children (nodes h n)) = map (subtree d h) (children (nodes h n))"
    by (simp only: map_eq_conv)
  with s show ?case by (simp add: same_shape_def)
qed

lemma append_string_cell_nodes:
  assumes "row < fresh h"
  shows "nodes (append_string_cell s row h) n =
           (if n = Suc (fresh h) then (blank_node KindString)\<lparr>Value := s, parent := Some (fresh h)\<rparr>
            else if n = fresh h then
              (blank_node KindTableCell)\<lparr>parent := Some row, children := [Suc (fresh h)]\<rparr>
            else if n = row then (nodes h row)\<lparr>children := children (nodes h row) @ [fresh h]\<rparr>
            else nodes h n)"
    and "fresh (append_string_cell s row h) = Suc (Suc (fresh h))"
  using assms
  by (auto simp: append_string_cell_def NewTableCell_def NewString_def new_node_def
      AppendChild_def ensureIsolated_def Parent_def update_node_def blank_node_def Let_def)

lemma subtree_2:
  "subtree 2 h n =
     Tree (kind (nodes h n)) (Value (nodes h n)) (code (nodes h n))
       (map (\<lambda>c. Tree (kind (nodes h c)) (Value (nodes h c)) (code (nodes h c))
                (map (\<lambda>t. Tree (kind (nodes h t)) (Value (nodes h t)) (code (nodes h t)) [])
                   (children (nodes h c))))
          (children (nodes h n)))"
  by (simp add: numeral_2_eq_2)

lemma cells_inv_step:
  assumes inv: "cells_inv h row lo texts"
  shows "cells_inv (append_string_cell s row h) row lo (texts @ [s])"
proof -
  let ?h = "append_string_cell s row h"
  let ?f = "fresh h"
  from inv have row: "row < lo" "lo \<le> ?f" and cl: "closed_range h lo ?f"
    and ch: "\<And>c. c \<in> set (children (nodes h row)) \<Longrightarrow> lo \<le> c \<and> c < ?f \<and> parent (nodes h c) = Some row"
    and di: "distinct (children (nodes h row))"
    and st: "map (subtree 2 h) (children (nodes h row)) = map text_cell texts"
    by (simp_all add: cells_inv_def)
  from row have rf: "row < ?f" by simp
  note nd = append_string_cell_nodes [OF rf]
  have fr: "fresh ?h = Suc (Suc ?f)" by (rule nd(2))
  have old: "nodes ?h m = nodes h m" if "lo \<le> m" "m < ?f" for m
    using that row by (simp add: nd(1))
  have rowch: "children (nodes ?h row) = children (nodes h row) @ [?f]"
    using rf by (simp add: nd(1))
  have 1: "closed_range ?h lo (fresh ?h)"
    unfolding closed_range_def
  proof (intro allI impI ballI)
    fix m c assume m: "lo \<le> m \<and> m < fresh ?h" and c: "c \<in> set (children (nodes ?h m))"
    show "lo \<le> c \<and> c < fresh ?h"
    proof (cases "m < ?f")
      case True
      with m c have "c \<in> set (children (nodes h m))" by (simp add: old)
      with cl m True have "lo \<le> c" "c < ?f" by (blast dest: closed_rangeD)+
      then show ?thesis by (simp add: fr)
    next
      case False
      with m have "m = ?f \<or> m = Suc ?f" by (auto simp: fr)
      with c row show ?thesis by (auto simp: nd blank_node_def)
    qed
  qed
  have 2: "\<forall>c \<in> set (children (nodes ?h row)). lo \<le> c \<and> c < fresh ?h \<and> parent (nodes ?h c) = Some row"
  proof
    fix c assume "c \<in> set (children (nodes ?h row))"
    then have "c \<in> set (children (nodes h row)) \<or> c = ?f" by (auto simp: rowch)
    then show "lo \<le> c \<and> c < fresh ?h \<and> parent (nodes ?h c) = Some row"
    proof
      assume "c \<in> set (children (nodes h row))"
      then have c: "lo \<le> c \<and> c < ?f \<and> parent (nodes h c) = Some row" by (rule ch)
      then have "nodes ?h c = nodes h c" by (simp add: old)
      with c show ?thesis by (simp add: fr)
    next
      assume "c = ?f"
      with row show ?thesis by (simp add: nd)
    qed
  qed
  have 3: "distinct (children (nodes ?h row))"
    using di ch by (auto simp: rowch)
  have "subtree 2 ?h c = subtree 2 h c" if "c \<in> set (children (nodes h row))" for c
  proof (rule subtree_frame [where lo = lo and hi = ?f])
    show "same_shape (nodes ?h m) (nodes h m)" if "lo \<le> m" "m < ?f" for m
      using that by (simp add: old)
    show "closed_range h lo ?f" by (rule cl)
    show "lo \<le> c" "c < ?f" using ch [OF that] by simp_all
  qed
  then have a: "map (subtree 2 ?h) (children (nodes h row)) = map text_cell texts"
    using st by (simp cong: map_cong)
  have b: "subtree 2 ?h ?f = text_cell s"
    by (simp add: subtree_2 nd text_cell_def blank_node_def)
  have 4: "map (subtree 2 ?h) (children (nodes ?h row)) = map text_cell (texts @ [s])"
    using a b by (simp add: rowch)
  from row 1 2 3 4 show ?thesis
    unfolding cells_inv_def by (simp add: fr)
qed

lemma append_cells_simps [simp]:
  "append_cells [] row h = h"
  "append_cells (s # ss) row h = append_cells ss row (append_string_cell s row h)"
  by (simp_all add: append_cells_def)

lemma body_loop_append_cells:
  "body_loop items row h = append_cells (map valueNodeToString items) row h"
  by (induction items arbitrary: h) simp_all

lemma header_loop_append_cells:
  "header_loop (scalar_pairs kvs) row valueNodes h
     = Inr (valueNodes @ map (\<lambda>kv. YNode ScalarNode (snd kv) []) kvs,
            append_cells (map fst kvs) row h)"
proof (induction kvs arbitrary: valueNodes h)
  case Nil
  show ?case by simp
next
  case (Cons kv kvs)
  obtain k v where kv: "kv = (k, v)" by (cases kv)
  show ?case by (simp add: kv Cons.IH ScalarNode_def SequenceNode_def MappingNode_def)
qed

lemma append_string_cell_frame:
  assumes "row < fresh h"
  shows "fresh h \<le> fresh (append_string_cell s row h)"
    and "\<And>n. n < fresh h \<Longrightarrow> n \<noteq> row \<Longrightarrow> nodes (append_string_cell s row h) n = nodes h n"
    and "kind (nodes (append_string_cell s row h) row) = kind (nodes h row)"
    and "Value (nodes (append_string_cell s row h) row) = Value (nodes h row)"
    and "code (nodes (append_string_cell s row h) row) = code (nodes h row)"
    and "parent (nodes (append_string_cell s row h) row) = parent (nodes h row)"
  using assms by (simp_all add: append_string_cell_nodes)

lemma append_cells_inv:
  assumes "cells_inv h row lo texts"
  shows "cells_inv (append_cells ss row h) row lo (texts @ ss)"
  using assms
proof (induction ss arbitrary: h texts)
  case Nil
  then show ?case by simp
next
  case (Cons s ss)
  from Cons.prems have "cells_inv (append_string_cell s row h) row lo (texts @ [s])"
    by (rule cells_inv_step)
  then have "cells_inv (append_cells ss row (append_string_cell s row h)) row lo ((texts @ [s]) @ ss)"
    by (rule Cons.IH)
  then show ?case by simp
qed

lemma append_cells_frame:
  assumes "row < fresh h"
  shows "fresh (append_cells ss row h) = fresh h + 2 * length ss
         \<and> (\<forall>n. n < fresh h \<and> n \<noteq> row \<longrightarrow> nodes (append_cells ss row h) n = nodes h n)
         \<and> kind (nodes (append_cells ss row h) row) = kind (nodes h row)
         \<and> Value (nodes (append_cells ss row h) row) = Value (nodes h row)
         \<and> code (nodes (append_cells ss row h) row) = code (nodes h row)
         \<and> parent (nodes (append_cells ss row h) row) = parent (nodes h row)"
  using assms
proof (induction ss arbitrary: h)
  case Nil
  show ?case by simp
next
  case (Cons s ss)
  let ?h = "append_string_cell s row h"
  note st = append_string_cell_nodes [OF Cons.prems]
  have r: "row < fresh ?h" using Cons.prems by (simp add: st)
  note ih = Cons.IH [OF r]
  have "\<forall>n. n < fresh h \<and> n \<noteq> row \<longrightarrow> nodes (append_cells ss row ?h) n = nodes h n"
  proof (intro allI impI)
    fix n assume n: "n < fresh h \<and> n \<noteq> row"
    then have "n < fresh ?h \<and> n \<noteq> row" by (simp add: st)
    with ih have "nodes (append_cells ss row ?h) n = nodes ?h n" by blast
    also have "\<dots> = nodes h n" using n by (simp add: st)
    finally show "nodes (append_cells ss row ?h) n = nodes h n" .
  qed
  moreover have "fresh (append_cells ss row ?h) = fresh h + 2 * length (s # ss)"
    using ih by (simp add: st)
  moreover have "kind (nodes (append_cells ss row ?h) row) = kind (nodes h row)"
    "Value (nodes (append_cells ss row ?h) row) = Value (nodes h row)"
    "code (nodes (append_cells ss row ?h) row) = code (nodes h row)"
    "parent (nodes (append_cells ss row ?h) row) = parent (nodes h row)"
    using ih Cons.prems by (simp_all add: st)
  ultimately show ?case by simp
qed

lemma same_shape_trans: "same_shape a b \<Longrightarrow> same_shape b c \<Longrightarrow> same_shape a c"
  by (simp add: same_shape_def)

lemma AppendChild_nodes:
  assumes "parent (nodes h c) = None" and "p \<noteq> c"
  shows "nodes (AppendChild p c h) n =
           (if n = c then (nodes h c)\<lparr>parent := Some p\<rparr>
            else if n = p then (nodes h p)\<lparr>children := children (nodes h p) @ [c]\<rparr>
            else nodes h n)"
    and "fresh (AppendChild p c h) = fresh h"
  using assms by (simp_all add: AppendChild_def ensureIsolated_def Parent_def)

lemma AppendChild_move_nodes:
  assumes "parent (nodes h c) = Some q" and "p \<noteq> c" and "q \<noteq> c" and "p \<noteq> q"
  shows "nodes (AppendChild p c h) n =
           (if n = c then (nodes h c)\<lparr>parent := Some p\<rparr>
            else if n = p then (nodes h p)\<lparr>children := children (nodes h p) @ [c]\<rparr>
            else if n = q then (nodes h q)\<lparr>children := remove1 c (children (nodes h q))\<rparr>
            else nodes h n)"
    and "fresh (AppendChild p c h) = fresh h"
  using assms by (auto simp: AppendChild_def ensureIsolated_def Parent_def RemoveChild_def)

lemma move_cells:
  assumes "hdr \<noteq> row"
    and "children (nodes g row) = rest"
    and "distinct rest"
    and "\<forall>c \<in> set rest. parent (nodes g c) = Some row \<and> c \<noteq> row \<and> c \<noteq> hdr"
  shows "children (nodes (fold (\<lambda>c. AppendChild hdr c) rest g) hdr) = children (nodes g hdr) @ rest
         \<and> children (nodes (fold (\<lambda>c. AppendChild hdr c) rest g) row) = []
         \<and> fresh (fold (\<lambda>c. AppendChild hdr c) rest g) = fresh g
         \<and> (\<forall>n. n \<noteq> row \<and> n \<noteq> hdr \<longrightarrow>
               same_shape (nodes (fold (\<lambda>c. AppendChild hdr c) rest g) n) (nodes g n))
         \<and> (\<forall>n. n \<noteq> row \<and> n \<noteq> hdr \<and> n \<notin> set rest \<longrightarrow>
               nodes (fold (\<lambda>c. AppendChild hdr c) rest g) n = nodes g n)
         \<and> kind (nodes (fold (\<lambda>c. AppendChild hdr c) rest g) hdr) = kind (nodes g hdr)
         \<and> Value (nodes (fold (\<lambda>c. AppendChild hdr c) rest g) hdr) = Value (nodes g hdr)
         \<and> code (nodes (fold (\<lambda>c. AppendChild hdr c) rest g) hdr) = code (nodes g hdr)
         \<and> parent (nodes (fold (\<lambda>c. AppendChild hdr c) rest g) hdr) = parent (nodes g hdr)"
  using assms(2,3,4)
proof (induction rest arbitrary: g)
  case Nil
  then show ?case by simp
next
  case (Cons c rest)
  let ?g = "AppendChild hdr c g"
  let ?G = "fold (\<lambda>c. AppendChild hdr c) rest ?g"
  from Cons.prems have c: "parent (nodes g c) = Some row" "c \<noteq> row" "c \<noteq> hdr"
    and crest: "c \<notin> set rest" "distinct rest"
    by simp_all
  note nd = AppendChild_move_nodes [OF c(1) c(3) [symmetric] c(2) [symmetric] assms(1)]
  have 1: "children (nodes ?g row) = rest"
    using c assms(1) Cons.prems(1) by (simp add: nd)
  have 2: "\<forall>c' \<in> set rest. parent (nodes ?g c') = Some row \<and> c' \<noteq> row \<and> c' \<noteq> hdr"
    using Cons.prems(3) crest by (auto simp: nd)
  note ih = Cons.IH [OF 1 crest(2) 2]
  have a: "children (nodes ?G hdr) = children (nodes g hdr) @ c # rest"
    using ih c by (simp add: nd)
  have b: "\<forall>n. n \<noteq> row \<and> n \<noteq> hdr \<longrightarrow> same_shape (nodes ?G n) (nodes g n)"
  proof (intro allI impI)
    fix n assume n: "n \<noteq> row \<and> n \<noteq> hdr"
    with ih have "same_shape (nodes ?G n) (nodes ?g n)" by blast
    moreover have "same_shape (nodes ?g n) (nodes g n)"
      using n by (simp add: nd same_shape_def)
    ultimately show "same_shape (nodes ?G n) (nodes g n)" by (rule same_shape_trans)
  qed
  have d: "\<forall>n. n \<noteq> row \<and> n \<noteq> hdr \<and> n \<notin> set (c # rest) \<longrightarrow> nodes ?G n = nodes g n"
  proof (intro allI impI)
    fix n assume n: "n \<noteq> row \<and> n \<noteq> hdr \<and> n \<notin> set (c # rest)"
    with ih have "nodes ?G n = nodes ?g n" by simp
    also have "\<dots> = nodes g n" using n by (simp add: nd)
    finally show "nodes ?G n = nodes g n" .
  qed
  have e: "kind (nodes ?G hdr) = kind (nodes g hdr)" "Value (nodes ?G hdr) = Value (nodes g hdr)"
    "code (nodes ?G hdr) = code (nodes g hdr)" "parent (nodes ?G hdr) = parent (nodes g hdr)"
    using ih c by (simp_all add: nd)
  have r: "children (nodes ?G row) = []" and fr: "fresh ?G = fresh g"
    using ih by (simp_all add: nd(2))
  have G: "fold (\<lambda>c. AppendChild hdr c) (c # rest) g = ?G" by simp
  show ?case unfolding G using a r fr b d e by (intro conjI)
qed

lemma subtree_3:
  "subtree 3 h n =
     Tree (kind (nodes h n)) (Value (nodes h n)) (code (nodes h n))
       (map (subtree 2 h) (children (nodes h n)))"
  by (simp add: numeral_3_eq_3 numeral_2_eq_2)

lemma subtree_4:
  "subtree 4 h n =
     Tree (kind (nodes h n)) (Value (nodes h n)) (code (nodes h n))
       (map (subtree 3 h) (children (nodes h n)))"
proof -
  have "(4::nat) = Suc 3" by simp
  then show ?thesis by (simp only: subtree.simps)
qed

lemma NewTableHeader_cells:
  assumes inv: "cells_inv h row lo texts"
  shows "fst (NewTableHeader row h) = fresh h"
    and "fresh (snd (NewTableHeader row h)) = Suc (fresh h)"
    and "subtree 3 (snd (NewTableHeader row h)) (fresh h)
           = Tree KindTableHeader [] False (map text_cell texts)"
    and "parent (nodes (snd (NewTableHeader row h)) (fresh h)) = None"
    and "closed_range (snd (NewTableHeader row h)) lo (Suc (fresh h))"
    and "\<And>n. n < lo \<Longrightarrow> n \<noteq> row \<Longrightarrow> nodes (snd (NewTableHeader row h)) n = nodes h n"
proof -
  let ?hdr = "fresh h"
  let ?h1 = "snd (new_node KindTableHeader h)"
  let ?rest = "children (nodes h row)"
  let ?h = "fold (\<lambda>c. AppendChild ?hdr c) ?rest ?h1"
  from inv have row: "row < lo" "lo \<le> ?hdr" and cl: "closed_range h lo ?hdr"
    and ch: "\<And>c. c \<in> set ?rest \<Longrightarrow> lo \<le> c \<and> c < ?hdr \<and> parent (nodes h c) = Some row"
    and di: "distinct ?rest"
    and st: "map (subtree 2 h) ?rest = map text_cell texts"
    by (simp_all add: cells_inv_def)
  have eq: "snd (NewTableHeader row h) = ?h" and "fst (NewTableHeader row h) = ?hdr"
    using row by (simp_all add: NewTableHeader_def new_node_def blank_node_def split: prod.splits)
  then show "fst (NewTableHeader row h) = fresh h" by simp
  have 1: "?hdr \<noteq> row" using row by simp
  have 2: "children (nodes ?h1 row) = ?rest" using row by simp
  have 3: "\<forall>c \<in> set ?rest. parent (nodes ?h1 c) = Some row \<and> c \<noteq> row \<and> c \<noteq> ?hdr"
  proof
    fix c assume "c \<in> set ?rest"
    then have "lo \<le> c \<and> c < ?hdr \<and> parent (nodes h c) = Some row" by (rule ch)
    with row show "parent (nodes ?h1 c) = Some row \<and> c \<noteq> row \<and> c \<noteq> ?hdr" by simp
  qed
  note mv = move_cells [OF 1 2 di 3]
  show "fresh (snd (NewTableHeader row h)) = Suc (fresh h)"
    using mv by (simp add: eq)
  show "parent (nodes (snd (NewTableHeader row h)) (fresh h)) = None"
    using mv by (simp add: eq blank_node_def)
  have shape: "same_shape (nodes ?h m) (nodes h m)" if "lo \<le> m" "m < ?hdr" for m
  proof -
    from that row have "m \<noteq> row \<and> m \<noteq> ?hdr" by simp
    with mv have "same_shape (nodes ?h m) (nodes ?h1 m)" by blast
    moreover have "nodes ?h1 m = nodes h m" using that by simp
    ultimately show ?thesis by simp
  qed
  have hc: "children (nodes ?h ?hdr) = ?rest"
    using mv by (simp add: blank_node_def)
  have "subtree 2 ?h c = subtree 2 h c" if "c \<in> set ?rest" for c
  proof (rule subtree_frame [where lo = lo and hi = ?hdr])
    show "same_shape (nodes ?h m) (nodes h m)" if "lo \<le> m" "m < ?hdr" for m
      using that by (rule shape)
    show "closed_range h lo ?hdr" by (rule cl)
    show "lo \<le> c" "c < ?hdr" using ch [OF that] by simp_all
  qed
  then have "map (subtree 2 ?h) ?rest = map text_cell texts"
    using st by (simp cong: map_cong)
  then show "subtree 3 (snd (NewTableHeader row h)) (fresh h)
           = Tree KindTableHeader [] False (map text_cell texts)"
    using mv by (simp add: eq subtree_3 hc blank_node_def)
  show "closed_range (snd (NewTableHeader row h)) lo (Suc (fresh h))"
    unfolding closed_range_def eq
  proof (intro allI impI ballI)
    fix m c assume m: "lo \<le> m \<and> m < Suc ?hdr" and c: "c \<in> set (children (nodes ?h m))"
    show "lo \<le> c \<and> c < Suc ?hdr"
    proof (cases "m = ?hdr")
      case True
      with c have "c \<in> set ?rest" by (simp add: hc)
      then have "lo \<le> c \<and> c < ?hdr" using ch by blast
      then show ?thesis by simp
    next
      case False
      with m have m': "lo \<le> m" "m < ?hdr" by simp_all
      then have "same_shape (nodes ?h m) (nodes h m)" by (rule shape)
      with c have "c \<in> set (children (nodes h m))" by (simp add: same_shape_def)
      with cl m' have "lo \<le> c" "c < ?hdr" by (blast dest: closed_rangeD)+
      then show ?thesis by simp
    qed
  qed
  show "nodes (snd (NewTableHeader row h)) n = nodes h n" if "n < lo" "n \<noteq> row" for n
  proof -
    from that row have a: "n \<noteq> row \<and> n \<noteq> ?hdr \<and> n \<notin> set ?rest"
      using ch by force
    with mv have "nodes ?h n = nodes ?h1 n" by blast
    also have "\<dots> = nodes h n" using a by simp
    finally show ?thesis by (simp add: eq)
  qed
qed

lemma cells_inv_empty:
  assumes "children (nodes h row) = []" and "fresh h = Suc row"
  shows "cells_inv h row (Suc row) []"
  using assms by (simp add: cells_inv_def closed_range_def)

lemma cells_inv_closed_row:
  assumes "cells_inv h row (Suc row) texts"
  shows "closed_range h row (fresh h)"
  unfolding closed_range_def
proof (intro allI impI ballI)
  fix m c assume m: "row \<le> m \<and> m < fresh h" and c: "c \<in> set (children (nodes h m))"
  from assms have cl: "closed_range h (Suc row) (fresh h)"
    and ch: "\<And>c. c \<in> set (children (nodes h row)) \<Longrightarrow> Suc row \<le> c \<and> c < fresh h"
    by (simp_all add: cells_inv_def)
  show "row \<le> c \<and> c < fresh h"
  proof (cases "m = row")
    case True
    with c ch show ?thesis by force
  next
    case False
    with m have "Suc row \<le> m" "m < fresh h" by simp_all
    with cl c have "Suc row \<le> c" "c < fresh h" by (blast dest: closed_rangeD)+
    then show ?thesis by simp
  qed
qed

lemma NewTableRow_simps:
  "fst (NewTableRow al h) = fresh h"
  "fresh (snd (NewTableRow al h)) = Suc (fresh h)"
  "nodes (snd (NewTableRow al h)) n
     = (if n = fresh h then (blank_node KindTableRow)\<lparr>Alignments := al\<rparr> else nodes h n)"
  by (simp_all add: NewTableRow_def new_node_def blank_node_def)

lemma NewTable_simps:
  "fst (NewTable h) = fresh h"
  "fresh (snd (NewTable h)) = Suc (fresh h)"
  "nodes (snd (NewTable h)) n = (if n = fresh h then blank_node KindTable else nodes h n)"
  by (simp_all add: NewTable_def)

lemma scalar_values_strings:
  "map valueNodeToString (map (\<lambda>kv. YNode ScalarNode (snd kv) []) kvs) = map snd kvs"
  by (simp add: ScalarNode_def SequenceNode_def MappingNode_def)

lemma InsertBefore_first:
  assumes "parent (nodes h t) = None" and "doc \<noteq> t"
    and "\<forall>v. FirstChild doc h = Some v \<longrightarrow> v \<noteq> t \<and> Parent v h = Some doc"
  shows "nodes (InsertBefore doc (FirstChild doc h) t h) n =
           (if n = t then (nodes h t)\<lparr>parent := Some doc\<rparr>
            else if n = doc then (nodes h doc)\<lparr>children := t # children (nodes h doc)\<rparr>
            else nodes h n)"
proof (cases "children (nodes h doc)")
  case Nil
  then have "FirstChild doc h = None" by (simp add: FirstChild_def)
  then show ?thesis
    using assms(1,2) Nil by (simp add: InsertBefore_def AppendChild_nodes)
next
  case (Cons v vs)
  then have f: "FirstChild doc h = Some v" by (simp add: FirstChild_def)
  with assms(3) have "v \<noteq> t" "Parent v h = Some doc" by simp_all
  then show ?thesis
    using assms(1,2) Cons f
    by (simp add: InsertBefore_def ensureIsolated_def Parent_def Let_def)
qed

lemma fresh_AppendChild: "fresh (AppendChild p c h) = fresh h"
  by (simp add: AppendChild_def ensureIsolated_def RemoveChild_def split: option.splits)

lemma fresh_fold_AppendChild: "fresh (fold (\<lambda>c. AppendChild p c) cs h) = fresh h"
  by (induction cs arbitrary: h) (simp_all add: fresh_AppendChild)

lemma NewTableHeader_simps:
  "fst (NewTableHeader row h) = fresh h"
  "fresh (snd (NewTableHeader row h)) = Suc (fresh h)"
  by (simp_all add: NewTableHeader_def new_node_def fresh_fold_AppendChild)

lemma scalar_values_strings':
  "map (valueNodeToString \<circ> (\<lambda>kv. YNode ScalarNode (snd kv) [])) kvs = map snd kvs"
  by (simp add: ScalarNode_def SequenceNode_def MappingNode_def)

lemma build_table_scalar:
  assumes doc: "doc < fresh h"
    and first: "\<forall>v. FirstChild doc h = Some v \<longrightarrow> v < fresh h \<and> Parent v h = Some doc"
  shows "\<exists>h'. build_table doc (scalar_pairs kvs) h = Inr h'
           \<and> children (nodes h' doc) = fresh h # children (nodes h doc)
           \<and> parent (nodes h' (fresh h)) = Some doc
           \<and> subtree 4 h' (fresh h)
                = Tree KindTable [] False
                    [Tree KindTableHeader [] False (map (\<lambda>kv. text_cell (fst kv)) kvs),
                     Tree KindTableRow [] False (map (\<lambda>kv. text_cell (snd kv)) kvs)]
           \<and> (\<forall>n. n < fresh h \<and> n \<noteq> doc \<longrightarrow> nodes h' n = nodes h n)"
proof -
  define t where "t = fresh h"
  define al where "al = alignments_loop 1 (length (scalar_pairs kvs)) []"
  define h1 where "h1 = snd (NewTable h)"
  define h2 where "h2 = snd (NewTableRow al h1)"
  define h3 where "h3 = append_cells (map fst kvs) (Suc t) h2"
  define hd where "hd = fresh h3"
  define h4 where "h4 = snd (NewTableHeader (Suc t) h3)"
  define h5 where "h5 = AppendChild t hd h4"
  define h6 where "h6 = snd (NewTableRow al h5)"
  define h7 where "h7 = append_cells (map snd kvs) (Suc hd) h6"
  define h8 where "h8 = AppendChild t (Suc hd) h7"
  define h9 where "h9 = InsertBefore doc (FirstChild doc h8) t h8"

  have n1: "nodes h1 n = (if n = t then blank_node KindTable else nodes h n)"
    and f1: "fresh h1 = Suc t" for n
    by (simp_all add: h1_def t_def NewTable_simps)
  have n2: "nodes h2 n = (if n = Suc t then (blank_node KindTableRow)\<lparr>Alignments := al\<rparr> else nodes h1 n)"
    and f2: "fresh h2 = Suc (Suc t)" for n
    by (simp_all add: h2_def NewTableRow_simps f1)
  have "cells_inv h2 (Suc t) (Suc (Suc t)) []"
    by (rule cells_inv_empty) (simp_all add: n2 f2 blank_node_def)
  then have "cells_inv h3 (Suc t) (Suc (Suc t)) ([] @ map fst kvs)"
    unfolding h3_def by (rule append_cells_inv)
  then have inv3: "cells_inv h3 (Suc t) (Suc (Suc t)) (map fst kvs)" by simp
  have r2: "Suc t < fresh h2" by (simp add: f2)
  note fr3 = append_cells_frame [OF r2, of "map fst kvs", folded h3_def]
  have n3: "nodes h3 n = nodes h2 n" if "n \<le> t" for n
    using fr3 that by (simp add: f2)
  have thd: "Suc (Suc t) \<le> hd" using fr3 by (simp add: hd_def f2)
  note hdr = NewTableHeader_cells [OF inv3, folded h4_def hd_def]
  have n4: "nodes h4 n = nodes h3 n" if "n \<le> t" for n
    using that by (intro hdr(6)) simp_all
  have f4: "fresh h4 = Suc hd" by (rule hdr(2))
  have t_hd: "t \<noteq> hd" using thd by simp
  note a5 = AppendChild_nodes [OF hdr(4) t_hd, folded h5_def]
  have t4: "nodes h4 t = blank_node KindTable"
    by (simp add: n4 n3 n2 n1)
  have f5: "fresh h5 = Suc hd" by (simp add: a5(2) f4)
  have n6: "nodes h6 n = (if n = Suc hd then (blank_node KindTableRow)\<lparr>Alignments := al\<rparr> else nodes h5 n)"
    and f6: "fresh h6 = Suc (Suc hd)" for n
    by (simp_all add: h6_def NewTableRow_simps f5)
  have "cells_inv h6 (Suc hd) (Suc (Suc hd)) []"
    by (rule cells_inv_empty) (simp_all add: n6 f6 blank_node_def)
  then have "cells_inv h7 (Suc hd) (Suc (Suc hd)) ([] @ map snd kvs)"
    unfolding h7_def by (rule append_cells_inv)
  then have inv7: "cells_inv h7 (Suc hd) (Suc (Suc hd)) (map snd kvs)" by simp
  have r6: "Suc hd < fresh h6" by (simp add: f6)
  note fr7 = append_cells_frame [OF r6, of "map snd kvs", folded h7_def]
  have n7: "nodes h7 n = nodes h6 n" if "n \<le> hd" for n
    using fr7 that by (simp add: f6)
  have row7: "kind (nodes h7 (Suc hd)) = KindTableRow" "Value (nodes h7 (Suc hd)) = []"
    "code (nodes h7 (Suc hd)) = False" "parent (nodes h7 (Suc hd)) = None"
    using fr7 by (simp_all add: n6 blank_node_def)
  have t_row: "t \<noteq> Suc hd" using thd by simp
  note a8 = AppendChild_nodes [OF row7(4) t_row, folded h8_def]
  have t8: "nodes h8 t = (blank_node KindTable)\<lparr>children := [hd, Suc hd]\<rparr>"
    using thd by (simp add: a8 n7 n6 a5 t4 blank_node_def)
  have low: "nodes h8 n = nodes h n" if "n < t" for n
    using that thd by (simp add: a8 n7 n6 a5 n4 n3 n2 n1)
  have fc: "FirstChild doc h8 = FirstChild doc h"
    using doc by (simp add: FirstChild_def low t_def)
  have pt: "parent (nodes h8 t) = None" by (simp add: t8 blank_node_def)
  have dt: "doc \<noteq> t" using doc by (simp add: t_def)
  have fi: "\<forall>v. FirstChild doc h8 = Some v \<longrightarrow> v \<noteq> t \<and> Parent v h8 = Some doc"
  proof (intro allI impI)
    fix v assume "FirstChild doc h8 = Some v"
    with fc first have v: "v < t" "Parent v h = Some doc" by (simp_all add: t_def)
    then show "v \<noteq> t \<and> Parent v h8 = Some doc" by (simp add: Parent_def low)
  qed
  note n9 = InsertBefore_first [OF pt dt fi, folded h9_def]

  have bt: "build_table doc (scalar_pairs kvs) h = Inr h9"
    unfolding h9_def h8_def h7_def h6_def h5_def h4_def hd_def h3_def h2_def h1_def al_def t_def
    by (simp add: build_table_def header_loop_append_cells body_loop_append_cells
        scalar_values_strings scalar_values_strings' split_beta Let_def NewTable_simps NewTableRow_simps
        NewTableHeader_simps fresh_AppendChild)

  have c9: "children (nodes h9 doc) = t # children (nodes h doc)"
    using dt doc by (simp add: n9 low t_def)
  have p9: "parent (nodes h9 t) = Some doc" by (simp add: n9)
  have o9: "nodes h9 n = nodes h n" if "n < t" "n \<noteq> doc" for n
    using that by (simp add: n9 low)

  have s_hd: "subtree 3 h9 hd = subtree 3 h4 hd"
  proof (rule subtree_frame [where lo = "Suc (Suc t)" and hi = "Suc hd"])
    show "closed_range h4 (Suc (Suc t)) (Suc hd)" by (rule hdr(5))
    show "Suc (Suc t) \<le> hd" by (rule thd)
    show "hd < Suc hd" by simp
    show "same_shape (nodes h9 m) (nodes h4 m)" if "Suc (Suc t) \<le> m" "m < Suc hd" for m
      using that dt doc by (simp add: n9 a8 n7 n6 a5 same_shape_def t_def)
  qed
  have s_row: "subtree 3 h9 (Suc hd) = subtree 3 h7 (Suc hd)"
  proof (rule subtree_frame [where lo = "Suc hd" and hi = "fresh h7"])
    show "closed_range h7 (Suc hd) (fresh h7)" using inv7 by (rule cells_inv_closed_row)
    show "Suc hd \<le> Suc hd" by simp
    show "Suc hd < fresh h7" using fr7 by (simp add: f6)
    show "same_shape (nodes h9 m) (nodes h7 m)" if "Suc hd \<le> m" "m < fresh h7" for m
      using that dt doc thd by (simp add: n9 a8 same_shape_def t_def)
  qed
  have "subtree 3 h7 (Suc hd) = Tree KindTableRow [] False (map text_cell (map snd kvs))"
    using inv7 by (simp add: subtree_3 row7 cells_inv_def)
  with s_row have r9: "subtree 3 h9 (Suc hd) = Tree KindTableRow [] False (map text_cell (map snd kvs))"
    by simp
  from s_hd hdr(3) have h9hd: "subtree 3 h9 hd = Tree KindTableHeader [] False (map text_cell (map fst kvs))"
    by simp
  have "nodes h9 t = (blank_node KindTable)\<lparr>children := [hd, Suc hd], parent := Some doc\<rparr>"
    by (simp add: n9 t8)
  then have s9: "subtree 4 h9 t
                = Tree KindTable [] False
                    [Tree KindTableHeader [] False (map (\<lambda>kv. text_cell (fst kv)) kvs),
                     Tree KindTableRow [] False (map (\<lambda>kv. text_cell (snd kv)) kvs)]"
    by (simp add: subtree_4 h9hd r9 blank_node_def comp_def)
  from bt c9 p9 s9 o9 show ?thesis unfolding t_def by blast
qed

lemma Table_New_WithTable: "Table (New [WithTable])"
  by (simp add: New_def WithTable_def)

text \<open>
  C8. For a block whose deserialisation succeeded and gave a mapping of scalar
  key/value pairs (the root of the node tree is the mapping, or a document node around
  it), and with the table option set, the rewriter builds a table with two rows and
  inserts it as the first child of the document, before all former children. The
  cells of the header row hold the keys in declaration order, the cells of the body
  row hold the corresponding values verbatim, each cell as one plain \<^verbatim>\<open>String\<close> node;
  no other node that existed before is changed.
\<close>

theorem Transform_scalar_table:
  assumes "Table e"
    and "pc = Some d" and "Error d = None"
    and "Items d = YNode DocumentNode dv [YNode MappingNode mv (scalar_pairs kvs)]
         \<or> Items d = YNode MappingNode mv (scalar_pairs kvs)"
    and "doc < fresh h"
    and "\<forall>v. FirstChild doc h = Some v \<longrightarrow> v < fresh h \<and> Parent v h = Some doc"
  shows "\<exists>h' table. run_rewriter e doc r pc h = Inr h'
           \<and> children (nodes h' doc) = table # children (nodes h doc)
           \<and> parent (nodes h' table) = Some doc
           \<and> subtree 4 h' table
                = Tree KindTable [] False
                    [Tree KindTableHeader [] False (map (\<lambda>kv. text_cell (fst kv)) kvs),
                     Tree KindTableRow [] False (map (\<lambda>kv. text_cell (snd kv)) kvs)]
           \<and> (\<forall>n. n < fresh h \<and> n \<noteq> doc \<longrightarrow> nodes h' n = nodes h n)"
proof -
  have "run_rewriter e doc r pc h = Transform doc r pc h"
    using assms(1) by (simp add: run_rewriter_def Extend_def)
  also have "\<dots> = build_table doc (scalar_pairs kvs) h"
    using assms(2,3,4)
    by (auto simp: Transform_def GetItems_def DocumentNode_def MappingNode_def)
  finally have "run_rewriter e doc r pc h = build_table doc (scalar_pairs kvs) h" .
  then show ?thesis
    using build_table_scalar [OF assms(5,6), of kvs] by auto
qed

theorem Transform_scalar_table_witness:
  "\<exists>h' table. run_rewriter (New [WithTable]) 0 example_reader (Some example_table_slot)
                 example_closed_ast = Inr h'
     \<and> children (nodes h' 0) = [table, 2]
     \<and> subtree 4 h' table
          = Tree KindTable [] False
              [Tree KindTableHeader [] False [text_cell ''Title'', text_cell ''Summary''],
               Tree KindTableRow [] False [text_cell ''X'', text_cell ''Y'']]
     \<and> nodes h' 2 = nodes example_closed_ast 2"
proof -
  have a: "Error example_table_slot = None"
    "Items example_table_slot
       = YNode DocumentNode []
           [YNode MappingNode [] (scalar_pairs [(''Title'', ''X''), (''Summary'', ''Y'')])]
     \<or> Items example_table_slot
       = YNode MappingNode [] (scalar_pairs [(''Title'', ''X''), (''Summary'', ''Y'')])"
    "0 < fresh example_closed_ast"
    "\<forall>v. FirstChild 0 example_closed_ast = Some v \<longrightarrow>
         v < fresh example_closed_ast \<and> Parent v example_closed_ast = Some 0"
    by (simp_all add: example_table_slot_def example_closed_ast_def FirstChild_def Parent_def
        blank_node_def)
  have c: "children (nodes example_closed_ast 0) = [2]"
    by (simp add: example_closed_ast_def blank_node_def)
  have f: "(2::nat) < fresh example_closed_ast \<and> (2::nat) \<noteq> 0"
    by (simp add: example_closed_ast_def)
  from Transform_scalar_table [OF Table_New_WithTable refl a, of example_reader]
  obtain h' table where
    1: "run_rewriter (New [WithTable]) 0 example_reader (Some example_table_slot)
       example_closed_ast = Inr h'"
    and 2: "children (nodes h' 0) = table # children (nodes example_closed_ast 0)"
    and 3: "subtree 4 h' table
       = Tree KindTable [] False
           [Tree KindTableHeader [] False
              (map (\<lambda>kv. text_cell (fst kv)) [(''Title'', ''X''), (''Summary'', ''Y'')]),
            Tree KindTableRow [] False
              (map (\<lambda>kv. text_cell (snd kv)) [(''Title'', ''X''), (''Summary'', ''Y'')])]"
    and 4: "\<forall>n. n < fresh example_closed_ast \<and> n \<noteq> 0 \<longrightarrow>
              nodes h' n = nodes example_closed_ast n"
    by blast
  from 4 f have "nodes h' 2 = nodes example_closed_ast 2" by blast
  with 1 2 3 show ?thesis by (auto simp: c)
qed

section \<open>Properties of the accessors\<close>

text \<open>
  C6. The error-aware mapping accessor returns (absent, no error) when the session
  has no slot, (no mapping, the captured error) when the slot holds a recorded error,
  and the slot's mapping with no error otherwise.
\<close>

theorem TryGet_cases:
  "TryGet None = (None, None)
   \<and> (\<forall>d e. Error d = Some e \<longrightarrow> TryGet (Some d) = (None, Some e))
   \<and> (\<forall>d. Error d = None \<longrightarrow> TryGet (Some d) = (Map d, None))"
  by (simp add: TryGet_def)

theorem TryGet_cases_witness:
  "TryGet None = (None, None)
   \<and> TryGet (Some \<lparr>Map = None, Items = NilNode, Error = Some (YamlError ''yaml: bad''), Node = 1\<rparr>)
       = (None, Some (YamlError ''yaml: bad''))
   \<and> TryGet (Some \<lparr>Map = Some [(''Title'', VScalar ''X'')], Items = NilNode, Error = None, Node = 1\<rparr>)
       = (Some [(''Title'', VScalar ''X'')], None)"
  using TryGet_cases by simp

end
